theory Spec2Isabelle
  imports Complex_Main
begin

section \<open>Numbers and instants\<close>

text \<open>
  The scheduler (\<^verbatim>\<open>src/src/scheduler.ts\<close>) computes with JavaScript numbers and
  \<^verbatim>\<open>Date\<close> objects.  A number is modelled as a finite rational or one of the three
  non-finite values; arithmetic on finite numbers is exact (the values the scheduler
  multiplies are whole minutes and milliseconds, which a double represents exactly).
  A \<^verbatim>\<open>Date\<close> is its time value: whole milliseconds since the epoch.  The local time
  zone has a fixed offset, which is taken to be zero (the scheduler only reads local calendar
  fields and differences of time values, so a fixed offset only shifts every instant).
  Daylight-saving transitions and the limit of \<open>8.64e15\<close> milliseconds on a time value
  are outside the model.
\<close>

datatype number = Fin rat | NaN | PosInfinity | NegInfinity

type_synonym Date = int

definition isFinite :: "number \<Rightarrow> bool" where
  "isFinite v = (case v of Fin _ \<Rightarrow> True | _ \<Rightarrow> False)"

text \<open>\<^verbatim>\<open>ToIntegerOrInfinity\<close> on a finite number: truncation towards zero.\<close>

definition truncQ :: "rat \<Rightarrow> int" where
  "truncQ q = (if 0 \<le> q then \<lfloor>q\<rfloor> else \<lceil>q\<rceil>)"

text \<open>\<^verbatim>\<open>Math.round\<close>: the nearest integer, a tie going up.\<close>

definition Math_round :: "rat \<Rightarrow> int" where
  "Math_round q = \<lfloor>q + 1 / 2\<rfloor>"

text \<open>The operator \<^verbatim>\<open>%\<close>: the remainder has the sign of the dividend.\<close>

definition remInt :: "int \<Rightarrow> int \<Rightarrow> int" where
  "remInt a b = sgn a * (\<bar>a\<bar> mod \<bar>b\<bar>)"

definition remQ :: "rat \<Rightarrow> rat \<Rightarrow> rat" where
  "remQ a b = a - b * of_int (truncQ (a / b))"

subsection \<open>The calendar of a time value\<close>

text \<open>
  The day and year arithmetic of ECMAScript (Day, DaysInYear, DayFromYear, YearFromTime,
  MonthFromTime, DateFromTime, WeekDay, MakeTime, MakeDay, MakeDate).  YearFromTime is the
  largest year whose first day is not after the given day; \<open>yearUp\<close> searches for it upwards
  from an estimate that is never too large.
\<close>

definition msPerDay :: int where
  "msPerDay = 86400000"

definition msPerMinute :: int where
  "msPerMinute = 60000"

definition Day :: "Date \<Rightarrow> int" where
  "Day t = t div msPerDay"

definition TimeWithinDay :: "Date \<Rightarrow> int" where
  "TimeWithinDay t = t mod msPerDay"

definition isLeapYear :: "int \<Rightarrow> bool" where
  "isLeapYear y = (y mod 4 = 0 \<and> (y mod 100 \<noteq> 0 \<or> y mod 400 = 0))"

definition DaysInYear :: "int \<Rightarrow> int" where
  "DaysInYear y = (if isLeapYear y then 366 else 365)"

definition DayFromYear :: "int \<Rightarrow> int" where
  "DayFromYear y =
     365 * (y - 1970) + (y - 1969) div 4 - (y - 1901) div 100 + (y - 1601) div 400"

lemma div_step:
  fixes a k :: int
  assumes "0 < k"
  shows "(a + 1) div k = a div k + (if k dvd a + 1 then 1 else 0)"
proof (cases "k dvd a + 1")
  case True
  then obtain q where q: "a + 1 = k * q" by (auto simp: dvd_def)
  have "a = k * (q - 1) + (k - 1)" using q by (simp add: algebra_simps)
  then have "a div k = q - 1"
    using assms by auto
  then show ?thesis using True q assms by simp
next
  case False
  define r where "r = a mod k"
  have r: "0 \<le> r" "r < k" using assms by (simp_all add: r_def)
  have a: "a = k * (a div k) + r" by (simp add: r_def)
  have "r + 1 \<noteq> k"
  proof
    assume "r + 1 = k"
    then have "a + 1 = k * (a div k + 1)" using a by (simp add: algebra_simps)
    then have "k dvd a + 1" by (metis dvd_triv_left)
    then show False using False by simp
  qed
  then have "r + 1 < k" using r by simp
  moreover have "a + 1 = k * (a div k) + (r + 1)" using a by simp
  ultimately have "(a + 1) div k = a div k"
    using r by (metis int_div_pos_eq add_nonneg_nonneg zero_le_one)
  then show ?thesis using False by simp
qed

lemma DayFromYear_Suc: "DayFromYear (y + 1) = DayFromYear y + DaysInYear y"
proof -
  have d4: "(4 dvd y - 1969 + 1) = (4 dvd y)" by presburger
  have "(100 dvd y - 1900) = (100 dvd y)" by (rule dvd_diff_left_iff) simp
  then have d100: "(100 dvd y - 1901 + 1) = (100 dvd y)" by simp
  have "(400 dvd y - 1600) = (400 dvd y)" by (rule dvd_diff_left_iff) simp
  then have d400: "(400 dvd y - 1601 + 1) = (400 dvd y)" by simp
  have c1: "400 dvd y \<Longrightarrow> 100 dvd y" by (rule dvd_trans[of 100 400]) auto
  have c2: "100 dvd y \<Longrightarrow> 4 dvd y" by (rule dvd_trans[of 4 100]) auto
  have e4: "(y + 1 - 1969) div 4 = (y - 1969) div 4 + (if 4 dvd y then 1 else 0)"
    using div_step[of 4 "y - 1969"] d4 by (simp add: algebra_simps)
  have e100: "(y + 1 - 1901) div 100 = (y - 1901) div 100 + (if 100 dvd y then 1 else 0)"
    using div_step[of 100 "y - 1901"] d100 by (simp add: algebra_simps)
  have e400: "(y + 1 - 1601) div 400 = (y - 1601) div 400 + (if 400 dvd y then 1 else 0)"
    using div_step[of 400 "y - 1601"] d400 by (simp add: algebra_simps)
  have leap: "isLeapYear y = (4 dvd y \<and> (\<not> 100 dvd y \<or> 400 dvd y))"
    by (simp add: isLeapYear_def mod_eq_0_iff_dvd)
  have "DayFromYear (y + 1) =
          365 * (y + 1 - 1970) + ((y - 1969) div 4 + (if 4 dvd y then 1 else 0))
          - ((y - 1901) div 100 + (if 100 dvd y then 1 else 0))
          + ((y - 1601) div 400 + (if 400 dvd y then 1 else 0))"
    unfolding DayFromYear_def e4 e100 e400 by (rule refl)
  also have "\<dots> = DayFromYear y + DaysInYear y"
  proof (cases "4 dvd y")
    case False
    then have n100: "\<not> 100 dvd y" using c2 by blast
    then have n400: "\<not> 400 dvd y" using c1 by blast
    show ?thesis using False n100 n400 by (simp add: DayFromYear_def DaysInYear_def leap)
  next
    case d4: True
    show ?thesis
    proof (cases "100 dvd y")
      case False
      then have n400: "\<not> 400 dvd y" using c1 by blast
      show ?thesis using d4 False n400 by (simp add: DayFromYear_def DaysInYear_def leap)
    next
      case d100: True
      show ?thesis using d4 d100
        by (cases "400 dvd y") (simp_all add: DayFromYear_def DaysInYear_def leap)
    qed
  qed
  finally show ?thesis .
qed

function yearUp :: "int \<Rightarrow> int \<Rightarrow> int" where
  "yearUp d y = (if DayFromYear (y + 1) \<le> d then yearUp d (y + 1) else y)"
  by pat_completeness auto

termination
  by (relation "measure (\<lambda>(d, y). nat (d - DayFromYear y))")
     (auto simp: DayFromYear_Suc DaysInYear_def split: if_splits)

declare yearUp.simps [simp del]

definition yearEstimate :: "int \<Rightarrow> int" where
  "yearEstimate d = 1970 + (if 0 \<le> d then d div 366 else d div 365)"

definition YearFromTime :: "Date \<Rightarrow> int" where
  "YearFromTime t = yearUp (Day t) (yearEstimate (Day t))"

definition DayWithinYear :: "Date \<Rightarrow> int" where
  "DayWithinYear t = Day t - DayFromYear (YearFromTime t)"

text \<open>The day within its year on which month \<open>m\<close> (0 to 11) starts.\<close>

definition monthStart :: "bool \<Rightarrow> int \<Rightarrow> int" where
  "monthStart leap m =
     (if m = 0 then 0 else if m = 1 then 31
      else (if leap then 1 else 0) +
        (if m = 2 then 59 else if m = 3 then 90 else if m = 4 then 120
         else if m = 5 then 151 else if m = 6 then 181 else if m = 7 then 212
         else if m = 8 then 243 else if m = 9 then 273 else if m = 10 then 304 else 334))"

definition MonthFromTime :: "Date \<Rightarrow> int" where
  "MonthFromTime t =
     (let d = DayWithinYear t; leap = isLeapYear (YearFromTime t) in
      if d < monthStart leap 1 then 0 else if d < monthStart leap 2 then 1
      else if d < monthStart leap 3 then 2 else if d < monthStart leap 4 then 3
      else if d < monthStart leap 5 then 4 else if d < monthStart leap 6 then 5
      else if d < monthStart leap 7 then 6 else if d < monthStart leap 8 then 7
      else if d < monthStart leap 9 then 8 else if d < monthStart leap 10 then 9
      else if d < monthStart leap 11 then 10 else 11)"

definition DateFromTime :: "Date \<Rightarrow> int" where
  "DateFromTime t =
     DayWithinYear t - monthStart (isLeapYear (YearFromTime t)) (MonthFromTime t) + 1"

definition WeekDay :: "Date \<Rightarrow> int" where
  "WeekDay t = (Day t + 4) mod 7"

definition HourFromTime :: "Date \<Rightarrow> int" where
  "HourFromTime t = (t div 3600000) mod 24"

definition MinFromTime :: "Date \<Rightarrow> int" where
  "MinFromTime t = (t div msPerMinute) mod 60"

definition SecFromTime :: "Date \<Rightarrow> int" where
  "SecFromTime t = (t div 1000) mod 60"

definition msFromTime :: "Date \<Rightarrow> int" where
  "msFromTime t = t mod 1000"

definition MakeTime :: "int \<Rightarrow> int \<Rightarrow> int \<Rightarrow> int \<Rightarrow> int" where
  "MakeTime hour minute sec ms = hour * 3600000 + minute * msPerMinute + sec * 1000 + ms"

definition MakeDay :: "int \<Rightarrow> int \<Rightarrow> int \<Rightarrow> int" where
  "MakeDay year month dt =
     (let ym = year + month div 12; mn = month mod 12
      in DayFromYear ym + monthStart (isLeapYear ym) mn + dt - 1)"

definition MakeDate :: "int \<Rightarrow> int \<Rightarrow> Date" where
  "MakeDate day time = day * msPerDay + time"

subsection \<open>The methods of Date the scheduler calls\<close>

definition getFullYear :: "Date \<Rightarrow> int" where
  "getFullYear t = YearFromTime t"

definition getMonth :: "Date \<Rightarrow> int" where
  "getMonth t = MonthFromTime t"

definition getDate :: "Date \<Rightarrow> int" where
  "getDate t = DateFromTime t"

definition getDay :: "Date \<Rightarrow> int" where
  "getDay t = WeekDay t"

definition getHours :: "Date \<Rightarrow> int" where
  "getHours t = HourFromTime t"

definition getMinutes :: "Date \<Rightarrow> int" where
  "getMinutes t = MinFromTime t"

text \<open>\<^verbatim>\<open>setHours(0, 0, 0, 0)\<close>, \<^verbatim>\<open>setMinutes(m)\<close>, \<^verbatim>\<open>setSeconds(0, 0)\<close>, \<^verbatim>\<open>setDate(d)\<close>
  and \<^verbatim>\<open>setMonth(m)\<close>, each returning the new time value.\<close>

definition setHours0 :: "Date \<Rightarrow> Date" where
  "setHours0 t = MakeDate (Day t) (MakeTime 0 0 0 0)"

definition setMinutes :: "Date \<Rightarrow> int \<Rightarrow> Date" where
  "setMinutes t m = MakeDate (Day t) (MakeTime (HourFromTime t) m (SecFromTime t) (msFromTime t))"

definition setSeconds0 :: "Date \<Rightarrow> Date" where
  "setSeconds0 t = MakeDate (Day t) (MakeTime (HourFromTime t) (MinFromTime t) 0 0)"

definition setDate :: "Date \<Rightarrow> int \<Rightarrow> Date" where
  "setDate t d = MakeDate (MakeDay (YearFromTime t) (MonthFromTime t) d) (TimeWithinDay t)"

definition setMonth :: "Date \<Rightarrow> int \<Rightarrow> Date" where
  "setMonth t m = MakeDate (MakeDay (YearFromTime t) m (DateFromTime t)) (TimeWithinDay t)"

text \<open>\<^verbatim>\<open>new Date(year, month, day)\<close>: midnight of that local day; the constructor reads a
  year from 0 to 99 as 1900 plus that year.\<close>

definition newDate :: "int \<Rightarrow> int \<Rightarrow> int \<Rightarrow> Date" where
  "newDate year month day =
     (let yr = (if 0 \<le> year \<and> year \<le> 99 then 1900 + year else year)
      in MakeDate (MakeDay yr month day) 0)"

section \<open>The scheduler\<close>

subsection \<open>Data\<close>

text \<open>Modelled from the spec: \<^verbatim>\<open>ScheduleType\<close> is imported from the storage module, whose
  declaration of it is not among the sources; the scheduler compares a rule's type with the
  four kinds of the data model.\<close>

datatype ScheduleType = WithinDay | Daily | Weekly | Monthly

text \<open>A \<^verbatim>\<open>ScheduleRule\<close>; its fields \<^verbatim>\<open>id\<close>, \<^verbatim>\<open>type\<close> and \<^verbatim>\<open>message\<close> carry the prefix
  \<open>rule_\<close>.  An optional field is an \<open>option\<close>.\<close>

record ScheduleRule =
  rule_id :: string
  rule_type :: ScheduleType
  intervalMinutes :: number
  startMinutesFromMidnight :: number
  endMinutesFromMidnight :: number
  rule_message :: string
  daysOfWeek :: "bool list option"
  dayOfMonth :: "number option"

record ScheduledNotification =
  scheduleId :: string
  date :: Date
  message :: string

definition MIN_INTERVAL :: rat where
  "MIN_INTERVAL = 5"

definition MAX_INTERVAL :: rat where
  "MAX_INTERVAL = 180"

definition DEFAULT_DAYS :: "bool list" where
  "DEFAULT_DAYS = [True, True, True, True, True, True, True]"

definition DEFAULT_DAY_OF_MONTH :: int where
  "DEFAULT_DAY_OF_MONTH = 1"

subsection \<open>Normalisation\<close>

definition normalizeDaysOfWeek :: "bool list option \<Rightarrow> bool list" where
  "normalizeDaysOfWeek v =
     (case v of
        None \<Rightarrow> DEFAULT_DAYS
      | Some xs \<Rightarrow> if length xs \<noteq> 7 then DEFAULT_DAYS else map (\<lambda>entry. entry) xs)"

text \<open>An index past the end of the array reads \<^verbatim>\<open>undefined\<close>, which is not active.\<close>

definition isDayActive :: "Date \<Rightarrow> bool list \<Rightarrow> bool" where
  "isDayActive d days =
     (let day = getDay d; index = (if day = 0 then 6 else day - 1)
      in nat index < length days \<and> days ! nat index)"

definition normalizeDayOfMonth :: "number option \<Rightarrow> int" where
  "normalizeDayOfMonth v =
     (case v of
        Some (Fin q) \<Rightarrow>
          (let normalized = Math_round q
           in if normalized < 1 then 1 else if normalized > 31 then 31 else normalized)
      | _ \<Rightarrow> DEFAULT_DAY_OF_MONTH)"

definition normalizeMinutes :: "number \<Rightarrow> int" where
  "normalizeMinutes v =
     (case v of
        Fin q \<Rightarrow>
          (let normalized = remInt \<lfloor>q\<rfloor> (24 * 60)
           in if normalized < 0 then normalized + 24 * 60 else normalized)
      | _ \<Rightarrow> 0)"

text \<open>\<^verbatim>\<open>clamp\<close> is only called with the two interval bounds, which are finite.\<close>

definition clamp :: "number \<Rightarrow> rat \<Rightarrow> rat \<Rightarrow> rat" where
  "clamp v lo hi = (case v of Fin q \<Rightarrow> min hi (max lo q) | _ \<Rightarrow> lo)"

subsection \<open>Date helpers\<close>

definition startOfDay :: "Date \<Rightarrow> Date" where
  "startOfDay d = setHours0 d"

text \<open>\<^verbatim>\<open>dateAtMinutes\<close> is called with normalised whole minutes by the window functions
  and with a rule's own \<^verbatim>\<open>startMinutesFromMidnight\<close> by the fixed-time and monthly
  generators.  \<^verbatim>\<open>setMinutes\<close> truncates a finite argument to an integer; a non-finite one
  gives an invalid Date (\<open>None\<close>), which every comparison rejects.\<close>

definition dateAtMinutes :: "Date \<Rightarrow> int \<Rightarrow> Date" where
  "dateAtMinutes d minutes = setMinutes (startOfDay d) minutes"

definition dateAtMinutesNum :: "Date \<Rightarrow> number \<Rightarrow> Date option" where
  "dateAtMinutesNum d minutes =
     (case minutes of Fin q \<Rightarrow> Some (dateAtMinutes d (truncQ q)) | _ \<Rightarrow> None)"

text \<open>\<^verbatim>\<open>new Date(ms)\<close> truncates its argument to whole milliseconds.\<close>

definition addMinutes :: "Date \<Rightarrow> rat \<Rightarrow> Date" where
  "addMinutes d minutes = truncQ (of_int d + minutes * 60 * 1000)"

definition minutesSinceMidnight :: "Date \<Rightarrow> int" where
  "minutesSinceMidnight d = getHours d * 60 + getMinutes d"

definition addDays :: "Date \<Rightarrow> int \<Rightarrow> Date" where
  "addDays d days = setDate d (getDate d + days)"

definition addMonths :: "Date \<Rightarrow> int \<Rightarrow> Date" where
  "addMonths d months = setMonth d (getMonth d + months)"

definition getDaysInMonth :: "int \<Rightarrow> int \<Rightarrow> int" where
  "getDaysInMonth year monthIndex = getDate (newDate year (monthIndex + 1) 0)"

subsection \<open>Windows\<close>

definition isWithinWindow :: "Date \<Rightarrow> int \<Rightarrow> int \<Rightarrow> bool \<Rightarrow> bool" where
  "isWithinWindow d startMinutes endMinutes spansMidnight =
     (let timeMinutes = minutesSinceMidnight d
      in if \<not> spansMidnight then timeMinutes \<ge> startMinutes \<and> timeMinutes < endMinutes
         else timeMinutes \<ge> startMinutes \<or> timeMinutes < endMinutes)"

definition nextWindowStart :: "Date \<Rightarrow> int \<Rightarrow> int \<Rightarrow> bool \<Rightarrow> Date" where
  "nextWindowStart d startMinutes endMinutes spansMidnight =
     (let timeMinutes = minutesSinceMidnight d;
          todayStart = dateAtMinutes d startMinutes
      in if \<not> spansMidnight
         then (if timeMinutes < startMinutes then todayStart else addDays todayStart 1)
         else if timeMinutes \<ge> endMinutes \<and> timeMinutes < startMinutes then todayStart
         else addDays todayStart 1)"

text \<open>The window as the pair of its \<^verbatim>\<open>start\<close> and \<^verbatim>\<open>end\<close>.\<close>

definition windowFor :: "Date \<Rightarrow> int \<Rightarrow> int \<Rightarrow> bool \<Rightarrow> Date \<times> Date" where
  "windowFor d startMinutes endMinutes spansMidnight =
     (let timeMinutes = minutesSinceMidnight d;
          todayStart = dateAtMinutes d startMinutes
      in if \<not> spansMidnight then (todayStart, dateAtMinutes d endMinutes)
         else if timeMinutes \<ge> startMinutes
         then (todayStart, dateAtMinutes (addDays todayStart 1) endMinutes)
         else (dateAtMinutes (addDays todayStart (-1)) startMinutes, dateAtMinutes d endMinutes))"

text \<open>Every caller passes the clamped interval, which is not zero.\<close>

definition alignToInterval :: "Date \<Rightarrow> Date \<Rightarrow> rat \<Rightarrow> Date" where
  "alignToInterval windowStart cursor interval =
     (let diffMinutes = max 0 ((cursor - windowStart) div 60000);
          remainder = remQ (of_int diffMinutes) interval;
          delta = (if remainder = 0 then 0 else interval - remainder)
      in addMinutes cursor delta)"

subsection \<open>The recurrence generators\<close>

text \<open>
  Each \<^verbatim>\<open>while\<close> loop is a recursive function on the loop's variables (\<open>results\<close> is
  the array being filled, \<open>cursor\<close> and \<open>candidate\<close> the loop's dates).  A loop returns
  \<open>Some\<close> of its result when it ends and \<open>None\<close> when it runs forever, as the window loops
  would with an interval of zero; that they end for every rule is proved below.  A count is
  a natural number and the horizon a whole number of hours.
\<close>

text \<open>The inner loop of \<^verbatim>\<open>generateFireDates\<close>: the candidates of one window.\<close>

partial_function (option) windowCandidates ::
  "Date \<Rightarrow> Date \<Rightarrow> rat \<Rightarrow> bool list \<Rightarrow> nat \<Rightarrow> Date \<Rightarrow> Date list \<Rightarrow> Date \<Rightarrow> Date list option"
where
  "windowCandidates now horizon interval activeDays maxCount windowEnd results candidate =
     (if candidate < windowEnd \<and> candidate \<le> horizon \<and> length results < maxCount
      then windowCandidates now horizon interval activeDays maxCount windowEnd
             (if candidate > now \<and> isDayActive candidate activeDays
              then results @ [candidate] else results)
             (addMinutes candidate interval)
      else Some results)"

declare windowCandidates.simps [code]

text \<open>The outer loop of \<^verbatim>\<open>generateFireDates\<close>; each \<^verbatim>\<open>break\<close> returns the results.\<close>

partial_function (option) fireLoop ::
  "Date \<Rightarrow> Date \<Rightarrow> rat \<Rightarrow> int \<Rightarrow> int \<Rightarrow> bool \<Rightarrow> bool \<Rightarrow> bool list \<Rightarrow> nat \<Rightarrow>
   Date list \<Rightarrow> Date \<Rightarrow> Date list option"
where
  "fireLoop now horizon interval startMinutes endMinutes allDay spansMidnight activeDays maxCount
     results cursor =
     (if length results < maxCount \<and> cursor \<le> horizon then
        if allDay then
          (let windowStart = startOfDay cursor;
               aligned = alignToInterval windowStart cursor interval;
               candidate = (if aligned \<le> now then addMinutes aligned interval else aligned)
           in if candidate > horizon then Some results
              else fireLoop now horizon interval startMinutes endMinutes allDay spansMidnight
                     activeDays maxCount
                     (if isDayActive candidate activeDays then results @ [candidate] else results)
                     (addMinutes candidate interval))
        else if \<not> isWithinWindow cursor startMinutes endMinutes spansMidnight
                \<and> nextWindowStart cursor startMinutes endMinutes spansMidnight > horizon
        then Some results
        else
          (let cursor1 = (if \<not> isWithinWindow cursor startMinutes endMinutes spansMidnight
                          then nextWindowStart cursor startMinutes endMinutes spansMidnight
                          else cursor);
               window = windowFor cursor1 startMinutes endMinutes spansMidnight;
               candidate = alignToInterval (fst window) cursor1 interval
           in case windowCandidates now horizon interval activeDays maxCount (snd window)
                     results candidate of
                None \<Rightarrow> None
              | Some results1 \<Rightarrow>
                  fireLoop now horizon interval startMinutes endMinutes allDay spansMidnight
                    activeDays maxCount results1 (addMinutes (snd window) 1))
      else Some results)"

declare fireLoop.simps [code]

partial_function (option) fallbackLoop ::
  "Date \<Rightarrow> rat \<Rightarrow> int \<Rightarrow> int \<Rightarrow> bool \<Rightarrow> bool \<Rightarrow> bool list \<Rightarrow> nat \<Rightarrow>
   Date list \<Rightarrow> Date \<Rightarrow> Date list option"
where
  "fallbackLoop horizon interval startMinutes endMinutes allDay spansMidnight days maxCount
     results cursor =
     (if length results < maxCount \<and> cursor \<le> horizon
      then fallbackLoop horizon interval startMinutes endMinutes allDay spansMidnight days maxCount
             (if (allDay \<or> isWithinWindow cursor startMinutes endMinutes spansMidnight)
                 \<and> isDayActive cursor days
              then results @ [cursor] else results)
             (addMinutes cursor interval)
      else Some results)"

declare fallbackLoop.simps [code]

definition generateFallbackDates ::
  "Date \<Rightarrow> rat \<Rightarrow> int \<Rightarrow> int \<Rightarrow> bool list \<Rightarrow> nat \<Rightarrow> int \<Rightarrow> Date list option"
where
  "generateFallbackDates now interval startMinutes endMinutes days maxCount horizonHours =
     (let horizon = now + horizonHours * 60 * 60 * 1000;
          allDay = (startMinutes = endMinutes);
          spansMidnight = (endMinutes < startMinutes);
          cursor = setSeconds0 (addMinutes now interval)
      in fallbackLoop horizon interval startMinutes endMinutes allDay spansMidnight days maxCount
           [] cursor)"

text \<open>Which \<^verbatim>\<open>return\<close> of \<^verbatim>\<open>generateFireDates\<close> produced the result: the one for a mask
  with no active day, the one after the window search, or the call of the fallback.\<close>

datatype route = NoActiveDay | WindowSearch | FallbackSweep

definition generateFireDatesVia ::
  "Date \<Rightarrow> number \<Rightarrow> number \<Rightarrow> number \<Rightarrow> bool list option \<Rightarrow> nat option \<Rightarrow> int option \<Rightarrow>
   (route \<times> Date list) option"
where
  "generateFireDatesVia now intervalIn startIn endIn daysIn maxCountIn horizonHoursIn =
     (let interval = clamp intervalIn MIN_INTERVAL MAX_INTERVAL;
          startMinutes = normalizeMinutes startIn;
          endMinutes = normalizeMinutes endIn;
          maxCount = (case maxCountIn of None \<Rightarrow> 50 | Some n \<Rightarrow> n);
          horizonHours = (case horizonHoursIn of None \<Rightarrow> 24 | Some h \<Rightarrow> h);
          activeDays = normalizeDaysOfWeek daysIn
      in if \<not> (\<exists>d \<in> set activeDays. d) then Some (NoActiveDay, [])
         else
           (let horizon = now + horizonHours * 60 * 60 * 1000;
                allDay = (startMinutes = endMinutes);
                spansMidnight = (endMinutes < startMinutes)
            in case fireLoop now horizon interval startMinutes endMinutes allDay spansMidnight
                      activeDays maxCount [] now of
                 None \<Rightarrow> None
               | Some results \<Rightarrow>
                   if length results = 0
                   then map_option (Pair FallbackSweep)
                          (generateFallbackDates now interval startMinutes endMinutes activeDays
                             maxCount horizonHours)
                   else Some (WindowSearch, results)))"

definition generateFireDates ::
  "Date \<Rightarrow> number \<Rightarrow> number \<Rightarrow> number \<Rightarrow> bool list option \<Rightarrow> nat option \<Rightarrow> int option \<Rightarrow>
   Date list option"
where
  "generateFireDates now intervalIn startIn endIn daysIn maxCountIn horizonHoursIn =
     map_option snd
       (generateFireDatesVia now intervalIn startIn endIn daysIn maxCountIn horizonHoursIn)"

partial_function (option) fixedTimeLoop ::
  "Date \<Rightarrow> Date \<Rightarrow> number \<Rightarrow> bool list \<Rightarrow> nat \<Rightarrow> Date list \<Rightarrow> Date \<Rightarrow> Date list option"
where
  "fixedTimeLoop now horizon timeMinutes activeDays maxCount results cursor =
     (if length results < maxCount \<and> cursor \<le> horizon
      then fixedTimeLoop now horizon timeMinutes activeDays maxCount
             (case dateAtMinutesNum cursor timeMinutes of
                None \<Rightarrow> results
              | Some candidate \<Rightarrow>
                  if candidate > now \<and> candidate \<le> horizon \<and> isDayActive candidate activeDays
                  then results @ [candidate] else results)
             (addDays cursor 1)
      else Some results)"

declare fixedTimeLoop.simps [code]

definition generateFixedTimeDates ::
  "Date \<Rightarrow> number \<Rightarrow> bool list option \<Rightarrow> nat option \<Rightarrow> int option \<Rightarrow> Date list option"
where
  "generateFixedTimeDates now timeMinutes daysIn maxCountIn horizonHoursIn =
     (let maxCount = (case maxCountIn of None \<Rightarrow> 50 | Some n \<Rightarrow> n);
          horizonHours = (case horizonHoursIn of None \<Rightarrow> 24 | Some h \<Rightarrow> h);
          horizon = now + horizonHours * 60 * 60 * 1000;
          activeDays = normalizeDaysOfWeek daysIn
      in if \<not> (\<exists>d \<in> set activeDays. d) then Some []
         else fixedTimeLoop now horizon timeMinutes activeDays maxCount [] (startOfDay now))"

partial_function (option) monthlyLoop ::
  "Date \<Rightarrow> Date \<Rightarrow> number \<Rightarrow> int \<Rightarrow> nat \<Rightarrow> Date list \<Rightarrow> Date \<Rightarrow> Date list option"
where
  "monthlyLoop now horizon timeMinutes dayOfMonthN maxCount results cursor =
     (if length results < maxCount \<and> cursor \<le> horizon
      then
        (let year = getFullYear cursor;
             month = getMonth cursor;
             daysInThisMonth = getDaysInMonth year month;
             clampedDay = min dayOfMonthN daysInThisMonth
         in monthlyLoop now horizon timeMinutes dayOfMonthN maxCount
              (case dateAtMinutesNum (newDate year month clampedDay) timeMinutes of
                 None \<Rightarrow> results
               | Some candidate \<Rightarrow>
                   if candidate > now \<and> candidate \<le> horizon
                   then results @ [candidate] else results)
              (addMonths cursor 1))
      else Some results)"

declare monthlyLoop.simps [code]

definition generateMonthlyDates ::
  "Date \<Rightarrow> number \<Rightarrow> number \<Rightarrow> nat option \<Rightarrow> int option \<Rightarrow> Date list option"
where
  "generateMonthlyDates now timeMinutes dayOfMonthIn maxCountIn horizonHoursIn =
     (let maxCount = (case maxCountIn of None \<Rightarrow> 50 | Some n \<Rightarrow> n);
          horizonHours = (case horizonHoursIn of None \<Rightarrow> 24 | Some h \<Rightarrow> h);
          horizon = now + horizonHours * 60 * 60 * 1000;
          dayOfMonthN = normalizeDayOfMonth (Some dayOfMonthIn)
      in monthlyLoop now horizon timeMinutes dayOfMonthN maxCount []
           (newDate (getFullYear now) (getMonth now) 1))"

subsection \<open>The queue\<close>

text \<open>The dates of one rule, as the branches of \<^verbatim>\<open>buildNotificationQueue\<close> compute them.\<close>

definition datesFor :: "Date \<Rightarrow> nat \<Rightarrow> int \<Rightarrow> ScheduleRule \<Rightarrow> Date list option" where
  "datesFor now maxCount horizonHours schedule =
     (case rule_type schedule of
        WithinDay \<Rightarrow>
          generateFireDates now (intervalMinutes schedule) (startMinutesFromMidnight schedule)
            (endMinutesFromMidnight schedule) (daysOfWeek schedule) (Some maxCount)
            (Some horizonHours)
      | Daily \<Rightarrow>
          generateFixedTimeDates now (startMinutesFromMidnight schedule) (daysOfWeek schedule)
            (Some maxCount) (Some horizonHours)
      | Weekly \<Rightarrow>
          generateFixedTimeDates now (startMinutesFromMidnight schedule) (daysOfWeek schedule)
            (Some maxCount) (Some horizonHours)
      | Monthly \<Rightarrow>
          generateMonthlyDates now (startMinutesFromMidnight schedule)
            (Fin (of_int (normalizeDayOfMonth (dayOfMonth schedule))))
            (Some maxCount) (Some horizonHours))"

definition notify :: "ScheduleRule \<Rightarrow> Date \<Rightarrow> ScheduledNotification" where
  "notify schedule d =
     \<lparr>scheduleId = rule_id schedule, date = d, message = rule_message schedule\<rparr>"

fun combine ::
  "Date \<Rightarrow> nat \<Rightarrow> int \<Rightarrow> ScheduleRule list \<Rightarrow> ScheduledNotification list \<Rightarrow>
   ScheduledNotification list option"
where
  "combine now maxCount horizonHours [] combined = Some combined"
| "combine now maxCount horizonHours (schedule # rest) combined =
     (case datesFor now maxCount horizonHours schedule of
        None \<Rightarrow> None
      | Some dates \<Rightarrow>
          combine now maxCount horizonHours rest (combined @ map (notify schedule) dates))"

text \<open>\<^verbatim>\<open>Array.prototype.sort\<close> is stable and the comparator is the difference of the two
  time values: \<open>sort_key\<close>, the stable insertion sort of the list library, on the dates.\<close>

definition buildNotificationQueue ::
  "Date \<Rightarrow> ScheduleRule list \<Rightarrow> nat option \<Rightarrow> int option \<Rightarrow> ScheduledNotification list option"
where
  "buildNotificationQueue now schedules maxCountIn horizonHoursIn =
     (let maxCount = (case maxCountIn of None \<Rightarrow> 50 | Some n \<Rightarrow> n);
          horizonHours = (case horizonHoursIn of None \<Rightarrow> 24 | Some h \<Rightarrow> h)
      in case combine now maxCount horizonHours schedules [] of
           None \<Rightarrow> None
         | Some combined \<Rightarrow> Some (take maxCount (sort_key date combined)))"

section \<open>The vocabulary of the properties\<close>

text \<open>What the bounds contract asks of a result: strictly increasing, every instant after
  \<open>now\<close> and not after the horizon, at most \<open>maxCount\<close> instants.\<close>

definition inBounds :: "Date \<Rightarrow> Date \<Rightarrow> nat \<Rightarrow> Date list \<Rightarrow> bool" where
  "inBounds now horizon maxCount ts =
     (sorted_wrt (<) ts \<and> (\<forall>t \<in> set ts. now < t \<and> t \<le> horizon) \<and> length ts \<le> maxCount)"

definition allBelow :: "Date \<Rightarrow> Date list \<Rightarrow> bool" where
  "allBelow b ts = (\<forall>t \<in> set ts. t < b)"

definition withinBounds :: "Date \<Rightarrow> Date \<Rightarrow> nat \<Rightarrow> Date list \<Rightarrow> bool" where
  "withinBounds now horizon maxCount ts =
     ((\<forall>t \<in> set ts. now < t \<and> t \<le> horizon) \<and> length ts \<le> maxCount)"

text \<open>The count and the horizon a call computes with: \<^verbatim>\<open>maxCount ?? 50\<close>, and \<open>now\<close> plus
  \<^verbatim>\<open>horizonHours ?? 24\<close> hours.\<close>

definition countOf :: "nat option \<Rightarrow> nat" where
  "countOf maxCountIn = (case maxCountIn of None \<Rightarrow> 50 | Some n \<Rightarrow> n)"

definition hoursOf :: "int option \<Rightarrow> int" where
  "hoursOf horizonHoursIn = (case horizonHoursIn of None \<Rightarrow> 24 | Some h \<Rightarrow> h)"

definition horizonOf :: "Date \<Rightarrow> int option \<Rightarrow> Date" where
  "horizonOf now horizonHoursIn = now + hoursOf horizonHoursIn * 60 * 60 * 1000"

text \<open>The dates of every rule, as a function of the rule.\<close>

definition ruleDates :: "Date \<Rightarrow> nat \<Rightarrow> int \<Rightarrow> ScheduleRule \<Rightarrow> Date list" where
  "ruleDates now maxCount horizonHours schedule =
     (case datesFor now maxCount horizonHours schedule of None \<Rightarrow> [] | Some ds \<Rightarrow> ds)"

text \<open>The length of month \<open>m\<close> (0 to 11) of year \<open>y\<close>, and the day number of the first day
  of the month with index \<open>12 * y + m\<close>.\<close>

definition daysInMonth :: "int \<Rightarrow> int \<Rightarrow> int" where
  "daysInMonth y m =
     (if m = 1 then (if isLeapYear y then 29 else 28)
      else if m = 3 \<or> m = 5 \<or> m = 8 \<or> m = 10 then 30 else 31)"

definition firstDay :: "int \<Rightarrow> int" where
  "firstDay i = DayFromYear (i div 12) + monthStart (isLeapYear (i div 12)) (i mod 12)"

text \<open>The instants at midnight of the first day of a month, which the cursor of the monthly
  loop runs through.\<close>

definition monthStartInstant :: "int \<Rightarrow> Date" where
  "monthStartInstant i = firstDay i * msPerDay"

text \<open>The instant the monthly generator computes in the month with index \<open>i\<close>: the day
  \<open>min dayOfMonth (days in that month)\<close> of the month, at the given minutes after midnight.\<close>

definition fireInstant :: "number \<Rightarrow> int \<Rightarrow> int \<Rightarrow> Date option" where
  "fireInstant timeMinutes dayOfMonthN i =
     (case timeMinutes of
        Fin q \<Rightarrow>
          Some (monthStartInstant i
                + (min dayOfMonthN (daysInMonth (i div 12) (i mod 12)) - 1) * msPerDay
                + truncQ q * msPerMinute)
      | _ \<Rightarrow> None)"

text \<open>The candidates of the months from index \<open>i\<close> on whose first day is not after the
  horizon, at most \<open>n\<close> months.\<close>

fun monthlyCandidates :: "Date \<Rightarrow> number \<Rightarrow> int \<Rightarrow> nat \<Rightarrow> int \<Rightarrow> Date list" where
  "monthlyCandidates horizon timeMinutes dayOfMonthN 0 i = []"
| "monthlyCandidates horizon timeMinutes dayOfMonthN (Suc n) i =
     (if monthStartInstant i \<le> horizon
      then (case fireInstant timeMinutes dayOfMonthN i of None \<Rightarrow> [] | Some c \<Rightarrow> [c])
           @ monthlyCandidates horizon timeMinutes dayOfMonthN n (i + 1)
      else [])"

text \<open>The instants of an interval-only sweep: from \<open>c\<close> on in steps of the interval, while
  not after the horizon, at most \<open>n\<close> of them.\<close>

fun sweep :: "Date \<Rightarrow> rat \<Rightarrow> nat \<Rightarrow> Date \<Rightarrow> Date list" where
  "sweep horizon interval 0 c = []"
| "sweep horizon interval (Suc n) c =
     (if c \<le> horizon then c # sweep horizon interval n (addMinutes c interval) else [])"

section \<open>Properties of the calendar and of the date helpers\<close>

lemma DaysInYear_bounds: "365 \<le> DaysInYear y" "DaysInYear y \<le> 366"
  by (simp_all add: DaysInYear_def)

lemma DayFromYear_less_Suc: "DayFromYear y < DayFromYear (y + 1)"
  using DaysInYear_bounds(1)[of y] by (simp add: DayFromYear_Suc)

lemma DayFromYear_mono_aux: "0 \<le> k \<Longrightarrow> DayFromYear y + 365 * k \<le> DayFromYear (y + k)"
proof (induction k rule: int_ge_induct)
  case base
  then show ?case by simp
next
  case (step i)
  have "DayFromYear (y + (i + 1)) = DayFromYear (y + i) + DaysInYear (y + i)"
    using DayFromYear_Suc[of "y + i"] by (simp add: add.assoc)
  then show ?case using step DaysInYear_bounds(1)[of "y + i"] by simp
qed

lemma DayFromYear_upper_aux: "0 \<le> k \<Longrightarrow> DayFromYear (y + k) \<le> DayFromYear y + 366 * k"
proof (induction k rule: int_ge_induct)
  case base
  then show ?case by simp
next
  case (step i)
  have "DayFromYear (y + (i + 1)) = DayFromYear (y + i) + DaysInYear (y + i)"
    using DayFromYear_Suc[of "y + i"] by (simp add: add.assoc)
  then show ?case using step DaysInYear_bounds(2)[of "y + i"] by simp
qed

lemma DayFromYear_strict_mono: "y < z \<Longrightarrow> DayFromYear y < DayFromYear z"
  using DayFromYear_mono_aux[of "z - y" y] by simp

lemma DayFromYear_le_iff: "(DayFromYear y \<le> DayFromYear z) = (y \<le> z)"
  using DayFromYear_strict_mono[of z y] DayFromYear_strict_mono[of y z]
  by (cases "y = z") (auto simp: not_le[symmetric])

lemma DayFromYear_1970: "DayFromYear 1970 = 0"
  by (simp add: DayFromYear_def)

lemma yearEstimate_le: "DayFromYear (yearEstimate d) \<le> d"
proof (cases "0 \<le> d")
  case True
  have "DayFromYear (1970 + d div 366) \<le> DayFromYear 1970 + 366 * (d div 366)"
    using True by (intro DayFromYear_upper_aux) (simp add: pos_imp_zdiv_nonneg_iff)
  also have "\<dots> \<le> d" by (simp add: DayFromYear_1970)
  finally show ?thesis using True by (simp add: yearEstimate_def)
next
  case False
  define k where "k = - (d div 365)"
  have "d div 365 < 0" using False by (simp add: neg_imp_zdiv_neg_iff)
  then have k: "0 \<le> k" by (simp add: k_def)
  have "DayFromYear (1970 - k) + 365 * k \<le> DayFromYear ((1970 - k) + k)"
    using k by (rule DayFromYear_mono_aux)
  then have "DayFromYear (1970 - k) \<le> - (365 * k)" by (simp add: DayFromYear_1970)
  also have "\<dots> = 365 * (d div 365)" by (simp add: k_def)
  also have "\<dots> \<le> d" by simp
  finally show ?thesis using False by (simp add: yearEstimate_def k_def)
qed

lemma yearUp_spec:
  "DayFromYear y \<le> d \<Longrightarrow> DayFromYear (yearUp d y) \<le> d \<and> d < DayFromYear (yearUp d y + 1)"
proof (induction d y rule: yearUp.induct)
  case (1 d y)
  show ?case
  proof (cases "DayFromYear (y + 1) \<le> d")
    case True
    then show ?thesis using 1 by (subst (1 2) yearUp.simps) simp
  next
    case False
    then show ?thesis using 1 by (subst (1 2) yearUp.simps) simp
  qed
qed

lemma YearFromTime_spec:
  "DayFromYear (YearFromTime t) \<le> Day t" "Day t < DayFromYear (YearFromTime t + 1)"
  using yearUp_spec[OF yearEstimate_le, of "Day t"] by (simp_all add: YearFromTime_def)

lemma YearFromTime_unique:
  assumes "DayFromYear y \<le> Day t" "Day t < DayFromYear (y + 1)"
  shows "YearFromTime t = y"
proof -
  let ?z = "YearFromTime t"
  have "DayFromYear ?z < DayFromYear (y + 1)" using YearFromTime_spec(1)[of t] assms(2) by simp
  then have a: "?z < y + 1" using DayFromYear_le_iff[of "y + 1" ?z] by (simp add: not_le[symmetric])
  have "DayFromYear y < DayFromYear (?z + 1)" using YearFromTime_spec(2)[of t] assms(1) by simp
  then have b: "y < ?z + 1" using DayFromYear_le_iff[of "?z + 1" y] by (simp add: not_le[symmetric])
  show ?thesis using a b by simp
qed

lemma DayWithinYear_bounds:
  "0 \<le> DayWithinYear t" "DayWithinYear t < DaysInYear (YearFromTime t)"
  using YearFromTime_spec[of t] by (simp_all add: DayWithinYear_def DayFromYear_Suc)

lemma MonthFromTime_range: "0 \<le> MonthFromTime t \<and> MonthFromTime t \<le> 11"
  by (simp add: MonthFromTime_def Let_def)

lemma MakeDay_decode: "MakeDay (YearFromTime t) (MonthFromTime t) (DateFromTime t + n) = Day t + n"
proof -
  have "MonthFromTime t div 12 = 0" "MonthFromTime t mod 12 = MonthFromTime t"
    using MonthFromTime_range[of t] by simp_all
  then show ?thesis
    by (simp add: MakeDay_def Let_def DateFromTime_def DayWithinYear_def)
qed

lemma Day_decompose: "t = Day t * msPerDay + TimeWithinDay t"
  by (simp add: Day_def TimeWithinDay_def)

lemma TimeWithinDay_bounds: "0 \<le> TimeWithinDay t" "TimeWithinDay t < msPerDay"
  by (simp_all add: TimeWithinDay_def msPerDay_def)

lemma Day_of_parts: "0 \<le> x \<Longrightarrow> x < msPerDay \<Longrightarrow> Day (D * msPerDay + x) = D"
  by (simp add: Day_def msPerDay_def)

lemma TimeWithinDay_of_parts:
  "0 \<le> x \<Longrightarrow> x < msPerDay \<Longrightarrow> TimeWithinDay (D * msPerDay + x) = x"
  by (simp add: TimeWithinDay_def msPerDay_def)

lemma startOfDay_eq: "startOfDay d = Day d * msPerDay"
  by (simp add: startOfDay_def setHours0_def MakeDate_def MakeTime_def)

lemma hour_of_midnight: "HourFromTime (D * msPerDay) = 0"
proof -
  have "D * msPerDay div 3600000 = D * 24"
    using nonzero_mult_div_cancel_right[of "3600000::int" "D * 24"] by (simp add: msPerDay_def)
  then show ?thesis unfolding HourFromTime_def by simp
qed

lemma sec_of_midnight: "SecFromTime (D * msPerDay) = 0"
proof -
  have "D * msPerDay div 1000 = D * 86400"
    using nonzero_mult_div_cancel_right[of "1000::int" "D * 86400"] by (simp add: msPerDay_def)
  moreover have "(D * 86400) mod 60 = 0"
    using mod_mult_self2_is_0[of "D * 1440" "60::int"] by simp
  ultimately show ?thesis unfolding SecFromTime_def by simp
qed

lemma ms_of_midnight: "msFromTime (D * msPerDay) = 0"
  using mod_mult_self2_is_0[of "D * 86400" "1000::int"] by (simp add: msFromTime_def msPerDay_def)

lemma Day_of_midnight: "Day (D * msPerDay) = D"
  using Day_of_parts[of 0 D] by (simp add: msPerDay_def)

lemma dateAtMinutes_eq: "dateAtMinutes d m = Day d * msPerDay + m * msPerMinute"
  by (simp add: dateAtMinutes_def setMinutes_def startOfDay_eq MakeDate_def MakeTime_def
      hour_of_midnight sec_of_midnight ms_of_midnight Day_of_midnight)

lemma minutesSinceMidnight_eq: "minutesSinceMidnight d = TimeWithinDay d div msPerMinute"
proof -
  define u where "u = d div 60000"
  have h: "d div 3600000 = u div 60"
    unfolding u_def using zdiv_zmult2_eq[of 60 d 60000] by simp
  have "d mod 86400000 = 60000 * (u mod 1440) + d mod 60000"
    unfolding u_def using zmod_zmult2_eq[of 1440 d 60000] by simp
  then have "(d mod 86400000) div 60000 = u mod 1440" by simp
  moreover have "u mod 1440 = 60 * ((u div 60) mod 24) + u mod 60"
    using zmod_zmult2_eq[of 24 u 60] by simp
  ultimately show ?thesis
    by (simp add: minutesSinceMidnight_def getHours_def getMinutes_def HourFromTime_def
        MinFromTime_def TimeWithinDay_def msPerDay_def msPerMinute_def h u_def)
qed

lemma minutesSinceMidnight_bounds:
  "0 \<le> minutesSinceMidnight d" "minutesSinceMidnight d < 1440"
proof -
  show "0 \<le> minutesSinceMidnight d"
    using TimeWithinDay_bounds(1)[of d]
    by (simp add: minutesSinceMidnight_eq msPerMinute_def pos_imp_zdiv_nonneg_iff)
  have "TimeWithinDay d < 1440 * 60000" using TimeWithinDay_bounds(2)[of d] by (simp add: msPerDay_def)
  then show "minutesSinceMidnight d < 1440"
    by (simp add: minutesSinceMidnight_eq msPerMinute_def div_less_iff_less_mult)
qed

text \<open>An instant is its day, its minute of the day and the rest below a minute.\<close>

lemma instant_parts:
  "d = Day d * msPerDay + minutesSinceMidnight d * msPerMinute + d mod msPerMinute"
proof -
  have "TimeWithinDay d mod msPerMinute = d mod msPerMinute"
  proof -
    have "msPerMinute dvd msPerDay" by (simp add: msPerMinute_def msPerDay_def)
    then show ?thesis unfolding TimeWithinDay_def by (rule mod_mod_cancel)
  qed
  then have "TimeWithinDay d = minutesSinceMidnight d * msPerMinute + d mod msPerMinute"
    using div_mult_mod_eq[of "TimeWithinDay d" msPerMinute] by (simp add: minutesSinceMidnight_eq)
  then show ?thesis using Day_decompose[of d] by simp
qed

lemma below_minute_bounds: "0 \<le> d mod msPerMinute" "d mod msPerMinute < msPerMinute"
  by (simp_all add: msPerMinute_def)

lemma addDays_eq: "addDays d n = d + n * msPerDay"
proof -
  have "addDays d n = (Day d + n) * msPerDay + TimeWithinDay d"
    by (simp add: addDays_def setDate_def getDate_def MakeDay_decode MakeDate_def)
  then show ?thesis using Day_decompose[of d] by (simp add: algebra_simps)
qed

lemma setSeconds0_eq: "setSeconds0 d = d - d mod msPerMinute"
proof -
  have "getHours d * 60 + getMinutes d = minutesSinceMidnight d"
    by (simp add: minutesSinceMidnight_def)
  then have "HourFromTime d * 3600000 + MinFromTime d * msPerMinute
             = minutesSinceMidnight d * msPerMinute"
    by (simp add: getHours_def getMinutes_def msPerMinute_def algebra_simps)
  then have "setSeconds0 d = Day d * msPerDay + minutesSinceMidnight d * msPerMinute"
    by (simp add: setSeconds0_def MakeDate_def MakeTime_def)
  then show ?thesis using instant_parts[of d] by simp
qed

lemma truncQ_ge_floor: "\<lfloor>x\<rfloor> \<le> truncQ x"
  using floor_le_ceiling[of x] by (simp add: truncQ_def)

lemma truncQ_ge: "0 \<le> x \<Longrightarrow> d \<le> truncQ (of_int d + x)"
proof -
  assume x: "0 \<le> x"
  have "of_int d \<le> of_int d + x" using x by simp
  then have "d \<le> \<lfloor>of_int d + x\<rfloor>" by (simp only: le_floor_iff)
  then show ?thesis using truncQ_ge_floor[of "of_int d + x"] by linarith
qed

lemma truncQ_gt: "1 \<le> x \<Longrightarrow> d < truncQ (of_int d + x)"
proof -
  assume x: "1 \<le> x"
  have "of_int (d + 1) \<le> of_int d + x" using x by simp
  then have "d + 1 \<le> \<lfloor>of_int d + x\<rfloor>" by (simp only: le_floor_iff)
  then show ?thesis using truncQ_ge_floor[of "of_int d + x"] by linarith
qed

lemma truncQ_of_int: "truncQ (of_int n) = n"
  by (simp add: truncQ_def)

lemma addMinutes_ge: "0 \<le> q \<Longrightarrow> d \<le> addMinutes d q"
  unfolding addMinutes_def by (rule truncQ_ge) simp

lemma addMinutes_gt: "1 \<le> q \<Longrightarrow> d < addMinutes d q"
  unfolding addMinutes_def by (rule truncQ_gt) simp

lemma addMinutes_zero: "addMinutes d 0 = d"
  by (simp add: addMinutes_def truncQ_def)

lemma addMinutes_of_int: "addMinutes d (of_int n) = d + n * msPerMinute"
proof -
  have "(of_int d :: rat) + of_int n * 60 * 1000 = of_int (d + n * 60000)" by simp
  then show ?thesis unfolding addMinutes_def msPerMinute_def by (simp only: truncQ_of_int)
qed

lemma addMinutes_one: "addMinutes d 1 = d + msPerMinute"
  using addMinutes_of_int[of d 1] by simp

lemma remQ_bounds:
  assumes "0 \<le> a" "0 < b"
  shows "0 \<le> remQ a b" "remQ a b < b"
proof -
  have q: "0 \<le> a / b" using assms by simp
  then have t: "truncQ (a / b) = \<lfloor>a / b\<rfloor>" by (simp add: truncQ_def)
  have "of_int \<lfloor>a / b\<rfloor> \<le> a / b" by simp
  then have "of_int \<lfloor>a / b\<rfloor> * b \<le> (a / b) * b"
    using assms(2) by (intro mult_right_mono) simp_all
  then have "b * of_int \<lfloor>a / b\<rfloor> \<le> a" using assms(2) by (simp add: mult.commute)
  then show "0 \<le> remQ a b" by (simp add: remQ_def t)
  have "a / b < of_int \<lfloor>a / b\<rfloor> + 1" by linarith
  then have "a < (of_int \<lfloor>a / b\<rfloor> + 1) * b" using assms(2) by (simp add: pos_divide_less_eq)
  then show "remQ a b < b" by (simp add: remQ_def t algebra_simps)
qed

lemma alignToInterval_ge: "0 < interval \<Longrightarrow> cursor \<le> alignToInterval windowStart cursor interval"
proof -
  assume i: "0 < interval"
  define diffMinutes where "diffMinutes = max 0 ((cursor - windowStart) div 60000)"
  have "0 \<le> (of_int diffMinutes :: rat)" by (simp add: diffMinutes_def)
  then have "remQ (of_int diffMinutes) interval < interval"
    using i by (intro remQ_bounds)
  then have "0 \<le> (if remQ (of_int diffMinutes) interval = 0 then 0
                   else interval - remQ (of_int diffMinutes) interval)" by simp
  then show ?thesis
    unfolding alignToInterval_def Let_def diffMinutes_def[symmetric] by (rule addMinutes_ge)
qed

lemma clamp_bounds: "lo \<le> hi \<Longrightarrow> lo \<le> clamp v lo hi \<and> clamp v lo hi \<le> hi"
  by (cases v) (simp_all add: clamp_def)

lemma clamp_interval: "5 \<le> clamp v MIN_INTERVAL MAX_INTERVAL" "clamp v MIN_INTERVAL MAX_INTERVAL \<le> 180"
  using clamp_bounds[of MIN_INTERVAL MAX_INTERVAL v] by (simp_all add: MIN_INTERVAL_def MAX_INTERVAL_def)

lemma remInt_bounds: "0 < b \<Longrightarrow> - b < remInt a b \<and> remInt a b < b"
proof -
  assume b: "0 < b"
  have m: "0 \<le> \<bar>a\<bar> mod \<bar>b\<bar>" "\<bar>a\<bar> mod \<bar>b\<bar> < b" using b by simp_all
  show ?thesis
  proof (cases "0 \<le> a")
    case True
    then show ?thesis using m by (cases "a = 0") (simp_all add: remInt_def)
  next
    case False
    then have "sgn a = -1" by simp
    then show ?thesis using m by (simp add: remInt_def)
  qed
qed

lemma remInt_nonneg: "0 \<le> a \<Longrightarrow> 0 \<le> remInt a b"
  by (cases "b = 0") (simp_all add: remInt_def sgn_if)

lemma normalizeMinutes_range: "0 \<le> normalizeMinutes v \<and> normalizeMinutes v < 1440"
proof (cases v)
  case (Fin q)
  have "- 1440 < remInt \<lfloor>q\<rfloor> 1440 \<and> remInt \<lfloor>q\<rfloor> 1440 < 1440"
    by (rule remInt_bounds) simp
  then show ?thesis using Fin by (simp add: normalizeMinutes_def Let_def)
qed (simp_all add: normalizeMinutes_def)

lemma Day_shift: "Day (d + n * msPerDay) = Day d + n"
  by (simp add: Day_def msPerDay_def)

lemma minutesSinceMidnight_shift: "minutesSinceMidnight (d + n * msPerDay) = minutesSinceMidnight d"
  by (simp add: minutesSinceMidnight_eq TimeWithinDay_def msPerDay_def)

lemma Day_dateAtMinutes: "0 \<le> m \<Longrightarrow> m < 1440 \<Longrightarrow> Day (dateAtMinutes d m) = Day d"
  unfolding dateAtMinutes_eq by (rule Day_of_parts) (simp_all add: msPerMinute_def msPerDay_def)

lemma minutes_dateAtMinutes:
  "0 \<le> m \<Longrightarrow> m < 1440 \<Longrightarrow> minutesSinceMidnight (dateAtMinutes d m) = m"
proof -
  assume m: "0 \<le> m" "m < 1440"
  have "TimeWithinDay (Day d * msPerDay + m * msPerMinute) = m * msPerMinute"
    using m by (intro TimeWithinDay_of_parts) (simp_all add: msPerMinute_def msPerDay_def)
  then show ?thesis by (simp add: minutesSinceMidnight_eq dateAtMinutes_eq msPerMinute_def)
qed

text \<open>The facts about an instant that the window lemmas compute with.\<close>

lemma instant_facts:
  obtains D m r where "c = D * 86400000 + m * 60000 + r" "0 \<le> m" "m < 1440" "0 \<le> r" "r < 60000"
    "Day c = D" "minutesSinceMidnight c = m"
  using instant_parts[of c] minutesSinceMidnight_bounds[of c] below_minute_bounds[of c]
  by (simp add: msPerDay_def msPerMinute_def)

lemma nextWindowStart_gt:
  assumes "0 \<le> s" "s < 1440" "\<not> isWithinWindow c s e sp"
  shows "c < nextWindowStart c s e sp"
proof -
  obtain D m r where c: "c = D * 86400000 + m * 60000 + r" "0 \<le> m" "m < 1440" "0 \<le> r" "r < 60000"
    "Day c = D" "minutesSinceMidnight c = m" by (rule instant_facts)
  have today: "dateAtMinutes c s = D * 86400000 + s * 60000"
    by (simp add: dateAtMinutes_eq c(6) msPerDay_def msPerMinute_def)
  show ?thesis
    using assms c(2-5) unfolding nextWindowStart_def Let_def today c(7) addDays_eq
    by (simp add: msPerDay_def c(1))
qed

lemma nextWindowStart_within:
  assumes "0 \<le> s" "s < 1440" "s \<noteq> e" "sp = (e < s)"
  shows "isWithinWindow (nextWindowStart c s e sp) s e sp"
proof -
  have a: "minutesSinceMidnight (dateAtMinutes c s) = s"
    using assms(1,2) by (rule minutes_dateAtMinutes)
  have b: "minutesSinceMidnight (addDays (dateAtMinutes c s) 1) = s"
    using minutesSinceMidnight_shift[of "dateAtMinutes c s" 1] a by (simp add: addDays_eq)
  have "minutesSinceMidnight (nextWindowStart c s e sp) = s"
    using a b by (simp add: nextWindowStart_def Let_def)
  then show ?thesis using assms(3,4) by (simp add: isWithinWindow_def Let_def)
qed

lemma windowFor_end_gt:
  assumes "0 \<le> s" "s < 1440" "0 \<le> e" "isWithinWindow c s e sp"
  shows "c < snd (windowFor c s e sp)"
proof -
  obtain D m r where c: "c = D * 86400000 + m * 60000 + r" "0 \<le> m" "m < 1440" "0 \<le> r" "r < 60000"
    "Day c = D" "minutesSinceMidnight c = m" by (rule instant_facts)
  have today: "dateAtMinutes c s = D * 86400000 + s * 60000"
    by (simp add: dateAtMinutes_eq c(6) msPerDay_def msPerMinute_def)
  have "Day (addDays (dateAtMinutes c s) 1) = D + 1"
    using Day_dateAtMinutes[OF assms(1,2), of c] Day_shift[of "dateAtMinutes c s" 1]
    by (simp add: addDays_eq c(6))
  then have tomorrow: "dateAtMinutes (addDays (dateAtMinutes c s) 1) e
      = (D + 1) * 86400000 + e * 60000"
    by (simp add: dateAtMinutes_eq msPerDay_def msPerMinute_def)
  have here: "dateAtMinutes c e = D * 86400000 + e * 60000"
    by (simp add: dateAtMinutes_eq c(6) msPerDay_def msPerMinute_def)
  have "snd (windowFor c s e sp) =
      (if \<not> sp then D * 86400000 + e * 60000
       else if m \<ge> s then (D + 1) * 86400000 + e * 60000 else D * 86400000 + e * 60000)"
    unfolding windowFor_def Let_def c(7) tomorrow here by simp
  moreover have "if \<not> sp then m < e else (m \<ge> s \<or> m < e)"
    using assms(4) unfolding isWithinWindow_def Let_def c(7) by simp
  ultimately show ?thesis
    using assms(1-3) c(1-5) by (auto split: if_splits)
qed

section \<open>The loops end, within the bounds\<close>

lemma inBounds_Nil: "inBounds now horizon maxCount []"
  by (simp add: inBounds_def)

lemma allBelow_Nil: "allBelow b []"
  by (simp add: allBelow_def)

lemma inBounds_snoc:
  "inBounds now horizon maxCount ts \<Longrightarrow> allBelow c ts \<Longrightarrow> now < c \<Longrightarrow> c \<le> horizon \<Longrightarrow>
   length ts < maxCount \<Longrightarrow> inBounds now horizon maxCount (ts @ [c])"
  by (auto simp: inBounds_def allBelow_def sorted_wrt_append)

lemma allBelow_snoc: "allBelow b ts \<Longrightarrow> c < b \<Longrightarrow> allBelow b (ts @ [c])"
  by (simp add: allBelow_def)

lemma allBelow_mono: "allBelow b ts \<Longrightarrow> b \<le> b' \<Longrightarrow> allBelow b' ts"
  by (fastforce simp: allBelow_def)

lemma windowCandidates_inBounds:
  assumes "1 \<le> interval" "windowEnd \<le> b"
  shows "inBounds now horizon maxCount results \<Longrightarrow> allBelow candidate results \<Longrightarrow>
         allBelow b results \<Longrightarrow>
         \<exists>r. windowCandidates now horizon interval activeDays maxCount windowEnd results candidate
               = Some r \<and> inBounds now horizon maxCount r \<and> allBelow b r"
proof (induction "nat (horizon + 1 - candidate)" arbitrary: results candidate rule: less_induct)
  case less
  show ?case
  proof (cases "candidate < windowEnd \<and> candidate \<le> horizon \<and> length results < maxCount")
    case True
    let ?next = "addMinutes candidate interval"
    let ?results = "if candidate > now \<and> isDayActive candidate activeDays
                    then results @ [candidate] else results"
    have gt: "candidate < ?next" using assms(1) by (rule addMinutes_gt)
    have m: "nat (horizon + 1 - ?next) < nat (horizon + 1 - candidate)" using True gt by simp
    have 1: "inBounds now horizon maxCount ?results"
      using less.prems(1,2) True by (simp add: inBounds_snoc)
    have 2: "allBelow ?next ?results"
      using less.prems(2) gt by (fastforce simp: allBelow_def)
    have 3: "allBelow b ?results"
      using less.prems(3) True assms(2) by (fastforce simp: allBelow_def)
    show ?thesis
      using less.hyps[OF m 1 2 3] True by (subst windowCandidates.simps) simp
  next
    case False
    then show ?thesis
      using less.prems by (subst windowCandidates.simps) auto
  qed
qed

lemma fireLoop_inBounds:
  assumes "1 \<le> interval" "0 \<le> s" "s < 1440" "0 \<le> e" "e < 1440" "allDay = (s = e)" "sp = (e < s)"
  shows "inBounds now horizon maxCount results \<Longrightarrow> allBelow cursor results \<Longrightarrow> now \<le> cursor \<Longrightarrow>
         \<exists>r. fireLoop now horizon interval s e allDay sp activeDays maxCount results cursor = Some r
             \<and> inBounds now horizon maxCount r"
proof (induction "nat (horizon + 1 - cursor)" arbitrary: results cursor rule: less_induct)
  case less
  have pos: "0 < interval" using assms(1) by simp
  show ?case
  proof (cases "length results < maxCount \<and> cursor \<le> horizon")
    case False
    then show ?thesis using less.prems(1) by (subst fireLoop.simps) auto
  next
    case run: True
    show ?thesis
    proof (cases allDay)
      case True
      define aligned where "aligned = alignToInterval (startOfDay cursor) cursor interval"
      define candidate where
        "candidate = (if aligned \<le> now then addMinutes aligned interval else aligned)"
      define results1 where
        "results1 = (if isDayActive candidate activeDays then results @ [candidate] else results)"
      have a1: "cursor \<le> aligned" unfolding aligned_def using pos by (rule alignToInterval_ge)
      have a2: "aligned < addMinutes aligned interval" using assms(1) by (rule addMinutes_gt)
      have c1: "aligned \<le> candidate" using a2 by (simp add: candidate_def)
      have c2: "now < candidate" using a2 a1 less.prems(3) by (simp add: candidate_def)
      have c3: "candidate < addMinutes candidate interval" using assms(1) by (rule addMinutes_gt)
      have eq: "fireLoop now horizon interval s e allDay sp activeDays maxCount results cursor =
                (if candidate > horizon then Some results
                 else fireLoop now horizon interval s e allDay sp activeDays maxCount results1
                        (addMinutes candidate interval))"
        unfolding aligned_def candidate_def results1_def using run True
        by (subst fireLoop.simps) (simp add: Let_def)
      show ?thesis
      proof (cases "candidate > horizon")
        case True
        then show ?thesis using eq less.prems(1) by simp
      next
        case False
        have below: "allBelow candidate results"
          using less.prems(2) a1 c1 by (fastforce simp: allBelow_def)
        have m: "nat (horizon + 1 - addMinutes candidate interval) < nat (horizon + 1 - cursor)"
          using a1 c1 c3 run by simp
        have 1: "inBounds now horizon maxCount results1"
          using less.prems(1) below c2 False run by (simp add: results1_def inBounds_snoc)
        have 2: "allBelow (addMinutes candidate interval) results1"
          using below c3 by (fastforce simp: allBelow_def results1_def)
        have 3: "now \<le> addMinutes candidate interval" using c2 c3 by simp
        show ?thesis using less.hyps[OF m 1 2 3] eq False by simp
      qed
    next
      case False
      then have ne: "s \<noteq> e" using assms(6) by simp
      define cursor1 where
        "cursor1 = (if \<not> isWithinWindow cursor s e sp then nextWindowStart cursor s e sp else cursor)"
      define window where "window = windowFor cursor1 s e sp"
      define candidate where "candidate = alignToInterval (fst window) cursor1 interval"
      have eq: "fireLoop now horizon interval s e allDay sp activeDays maxCount results cursor =
                (if \<not> isWithinWindow cursor s e sp \<and> nextWindowStart cursor s e sp > horizon
                 then Some results
                 else case windowCandidates now horizon interval activeDays maxCount (snd window)
                             results candidate of
                        None \<Rightarrow> None
                      | Some results1 \<Rightarrow>
                          fireLoop now horizon interval s e allDay sp activeDays maxCount results1
                            (addMinutes (snd window) 1))"
        unfolding cursor1_def window_def candidate_def using run False
        by (subst fireLoop.simps) (simp add: Let_def)
      show ?thesis
      proof (cases "\<not> isWithinWindow cursor s e sp \<and> nextWindowStart cursor s e sp > horizon")
        case True
        then show ?thesis using eq less.prems(1) by simp
      next
        case go: False
        have k1: "cursor \<le> cursor1"
          using nextWindowStart_gt[OF assms(2,3), of cursor e sp] by (auto simp: cursor1_def)
        have k2: "isWithinWindow cursor1 s e sp"
          using nextWindowStart_within[OF assms(2,3) ne assms(7), of cursor]
          by (auto simp: cursor1_def)
        have k3: "cursor1 < snd window"
          unfolding window_def using assms(2,3,4) k2 by (rule windowFor_end_gt)
        have k4: "cursor1 \<le> candidate"
          unfolding candidate_def using pos by (rule alignToInterval_ge)
        let ?b = "addMinutes (snd window) 1"
        have b: "?b = snd window + msPerMinute" by (rule addMinutes_one)
        have w1: "allBelow candidate results"
          using less.prems(2) k1 k4 by (fastforce simp: allBelow_def)
        have w2: "allBelow ?b results"
          using less.prems(2) k1 k3 b by (fastforce simp: allBelow_def msPerMinute_def)
        have w3: "snd window \<le> ?b" using b by (simp add: msPerMinute_def)
        obtain r1 where r1:
          "windowCandidates now horizon interval activeDays maxCount (snd window) results candidate
             = Some r1" "inBounds now horizon maxCount r1" "allBelow ?b r1"
          using windowCandidates_inBounds[OF assms(1) w3 less.prems(1) w1 w2] by blast
        have m: "nat (horizon + 1 - ?b) < nat (horizon + 1 - cursor)"
          using k1 k3 b run by (simp add: msPerMinute_def)
        have 3: "now \<le> ?b" using less.prems(3) k1 k3 b by (simp add: msPerMinute_def)
        show ?thesis using less.hyps[OF m r1(2) r1(3) 3] eq go r1(1) by simp
      qed
    qed
  qed
qed

lemma fallbackLoop_inBounds:
  assumes "1 \<le> interval"
  shows "inBounds now horizon maxCount results \<Longrightarrow> allBelow cursor results \<Longrightarrow> now < cursor \<Longrightarrow>
         \<exists>r. fallbackLoop horizon interval s e allDay sp days maxCount results cursor = Some r
             \<and> inBounds now horizon maxCount r"
proof (induction "nat (horizon + 1 - cursor)" arbitrary: results cursor rule: less_induct)
  case less
  show ?case
  proof (cases "length results < maxCount \<and> cursor \<le> horizon")
    case False
    then show ?thesis using less.prems(1) by (subst fallbackLoop.simps) auto
  next
    case True
    let ?next = "addMinutes cursor interval"
    let ?results = "if (allDay \<or> isWithinWindow cursor s e sp) \<and> isDayActive cursor days
                    then results @ [cursor] else results"
    have gt: "cursor < ?next" using assms by (rule addMinutes_gt)
    have m: "nat (horizon + 1 - ?next) < nat (horizon + 1 - cursor)" using True gt by simp
    have 1: "inBounds now horizon maxCount ?results"
      using less.prems True by (simp add: inBounds_snoc)
    have 2: "allBelow ?next ?results"
      using less.prems(2) gt by (fastforce simp: allBelow_def)
    have 3: "now < ?next" using less.prems(3) gt by simp
    show ?thesis
      using less.hyps[OF m 1 2 3] True by (subst fallbackLoop.simps) simp
  qed
qed

lemma addMinutes_ge_minute: "1 \<le> q \<Longrightarrow> d + msPerMinute \<le> addMinutes d q"
proof -
  assume q: "1 \<le> q"
  have "of_int (d + 60000) \<le> of_int d + q * 60 * 1000" using q by simp
  then have "d + 60000 \<le> \<lfloor>of_int d + q * 60 * 1000\<rfloor>" by (simp only: le_floor_iff)
  then show ?thesis
    using truncQ_ge_floor[of "of_int d + q * 60 * 1000"]
    unfolding addMinutes_def msPerMinute_def by linarith
qed

lemma fallback_start_gt: "1 \<le> interval \<Longrightarrow> now < setSeconds0 (addMinutes now interval)"
  using addMinutes_ge_minute[of interval now] below_minute_bounds[of "addMinutes now interval"]
  by (simp add: setSeconds0_eq)

lemma generateFallbackDates_inBounds:
  assumes "1 \<le> interval"
  shows "\<exists>r. generateFallbackDates now interval s e days maxCount horizonHours = Some r
             \<and> inBounds now (now + horizonHours * 60 * 60 * 1000) maxCount r"
  unfolding generateFallbackDates_def Let_def
  using assms
  by (intro fallbackLoop_inBounds inBounds_Nil allBelow_Nil fallback_start_gt)

lemma dateAtMinutes_next_day: "dateAtMinutes (addDays c 1) m = dateAtMinutes c m + msPerDay"
  using Day_shift[of c 1] by (simp add: dateAtMinutes_eq addDays_eq algebra_simps)

lemma fixedTimeLoop_inBounds:
  "inBounds now horizon maxCount results \<Longrightarrow>
   (\<forall>q. timeMinutes = Fin q \<longrightarrow> allBelow (dateAtMinutes cursor (truncQ q)) results) \<Longrightarrow>
   \<exists>r. fixedTimeLoop now horizon timeMinutes activeDays maxCount results cursor = Some r
       \<and> inBounds now horizon maxCount r"
proof (induction "nat (horizon + 1 - cursor)" arbitrary: results cursor rule: less_induct)
  case less
  show ?case
  proof (cases "length results < maxCount \<and> cursor \<le> horizon")
    case False
    then show ?thesis using less.prems(1) by (subst fixedTimeLoop.simps) auto
  next
    case True
    let ?next = "addDays cursor 1"
    let ?results = "case dateAtMinutesNum cursor timeMinutes of
                      None \<Rightarrow> results
                    | Some candidate \<Rightarrow>
                        if candidate > now \<and> candidate \<le> horizon \<and> isDayActive candidate activeDays
                        then results @ [candidate] else results"
    have m: "nat (horizon + 1 - ?next) < nat (horizon + 1 - cursor)"
      using True by (simp add: addDays_eq msPerDay_def)
    have 1: "inBounds now horizon maxCount ?results"
      using less.prems True
      by (cases timeMinutes) (simp_all add: dateAtMinutesNum_def inBounds_snoc)
    have 2: "\<forall>q. timeMinutes = Fin q \<longrightarrow> allBelow (dateAtMinutes ?next (truncQ q)) ?results"
      using less.prems(2)
      by (cases timeMinutes)
         (auto simp: dateAtMinutesNum_def dateAtMinutes_next_day allBelow_def msPerDay_def)
    show ?thesis
      using less.hyps[OF m 1 2] True by (subst fixedTimeLoop.simps) simp
  qed
qed

lemma generateFixedTimeDates_inBounds:
  "\<exists>r. generateFixedTimeDates now timeMinutes daysIn maxCountIn horizonHoursIn = Some r
       \<and> inBounds now (now + (case horizonHoursIn of None \<Rightarrow> 24 | Some h \<Rightarrow> h) * 60 * 60 * 1000)
            (case maxCountIn of None \<Rightarrow> 50 | Some n \<Rightarrow> n) r"
proof (cases "\<exists>d \<in> set (normalizeDaysOfWeek daysIn). d")
  case False
  then show ?thesis by (auto simp: generateFixedTimeDates_def Let_def inBounds_Nil)
next
  case True
  then show ?thesis
    unfolding generateFixedTimeDates_def Let_def
    by (simp add: fixedTimeLoop_inBounds inBounds_Nil allBelow_Nil)
qed

lemma generateFireDatesVia_inBounds:
  "\<exists>via r. generateFireDatesVia now intervalIn startIn endIn daysIn maxCountIn horizonHoursIn
              = Some (via, r)
       \<and> inBounds now (now + (case horizonHoursIn of None \<Rightarrow> 24 | Some h \<Rightarrow> h) * 60 * 60 * 1000)
            (case maxCountIn of None \<Rightarrow> 50 | Some n \<Rightarrow> n) r"
proof (cases "\<exists>d \<in> set (normalizeDaysOfWeek daysIn). d")
  case False
  then show ?thesis by (auto simp: generateFireDatesVia_def Let_def inBounds_Nil)
next
  case True
  define interval where "interval = clamp intervalIn MIN_INTERVAL MAX_INTERVAL"
  define s where "s = normalizeMinutes startIn"
  define e where "e = normalizeMinutes endIn"
  define maxCount where "maxCount = (case maxCountIn of None \<Rightarrow> 50 | Some n \<Rightarrow> n)"
  define horizonHours where "horizonHours = (case horizonHoursIn of None \<Rightarrow> 24 | Some h \<Rightarrow> h)"
  define horizon where "horizon = now + horizonHours * 60 * 60 * 1000"
  have i: "1 \<le> interval" using clamp_interval(1)[of intervalIn] by (simp add: interval_def)
  have se: "0 \<le> s" "s < 1440" "0 \<le> e" "e < 1440"
    using normalizeMinutes_range[of startIn] normalizeMinutes_range[of endIn]
    by (simp_all add: s_def e_def)
  have "\<exists>r. fireLoop now horizon interval s e (s = e) (e < s) (normalizeDaysOfWeek daysIn)
              maxCount [] now = Some r \<and> inBounds now horizon maxCount r"
    by (rule fireLoop_inBounds[OF i se refl refl inBounds_Nil allBelow_Nil]) simp
  then obtain r0 where r0:
    "fireLoop now horizon interval s e (s = e) (e < s) (normalizeDaysOfWeek daysIn) maxCount [] now
       = Some r0" "inBounds now horizon maxCount r0"
    by blast
  obtain r1 where r1:
    "generateFallbackDates now interval s e (normalizeDaysOfWeek daysIn) maxCount horizonHours
       = Some r1" "inBounds now horizon maxCount r1"
    using generateFallbackDates_inBounds[OF i] unfolding horizon_def by blast
  show ?thesis
    using True r0 r1
    unfolding generateFireDatesVia_def Let_def interval_def[symmetric] s_def[symmetric]
      e_def[symmetric] maxCount_def[symmetric] horizonHours_def[symmetric] horizon_def[symmetric]
    by (cases "length r0 = 0") auto
qed

section \<open>Months\<close>

lemma month_cases:
  fixes m :: int
  assumes "0 \<le> m" "m \<le> 11"
  obtains "m = 0" | "m = 1" | "m = 2" | "m = 3" | "m = 4" | "m = 5" | "m = 6" | "m = 7"
    | "m = 8" | "m = 9" | "m = 10" | "m = 11"
proof -
  have "m = 0 \<or> m = 1 \<or> m = 2 \<or> m = 3 \<or> m = 4 \<or> m = 5 \<or> m = 6 \<or> m = 7
        \<or> m = 8 \<or> m = 9 \<or> m = 10 \<or> m = 11"
    using assms by arith
  then show ?thesis using that by blast
qed

lemma monthStart_values:
  "monthStart leap 0 = 0" "monthStart leap 1 = 31"
  "monthStart leap 2 = 59 + (if leap then 1 else 0)"
  "monthStart leap 3 = 90 + (if leap then 1 else 0)"
  "monthStart leap 4 = 120 + (if leap then 1 else 0)"
  "monthStart leap 5 = 151 + (if leap then 1 else 0)"
  "monthStart leap 6 = 181 + (if leap then 1 else 0)"
  "monthStart leap 7 = 212 + (if leap then 1 else 0)"
  "monthStart leap 8 = 243 + (if leap then 1 else 0)"
  "monthStart leap 9 = 273 + (if leap then 1 else 0)"
  "monthStart leap 10 = 304 + (if leap then 1 else 0)"
  "monthStart leap 11 = 334 + (if leap then 1 else 0)"
  by (simp_all add: monthStart_def)

lemma monthStart_Suc:
  "0 \<le> m \<Longrightarrow> m \<le> 10 \<Longrightarrow> monthStart (isLeapYear y) (m + 1) = monthStart (isLeapYear y) m + daysInMonth y m"
  by (rule month_cases[of m]) (simp_all add: monthStart_values daysInMonth_def)

lemma monthStart_last: "monthStart (isLeapYear y) 11 + daysInMonth y 11 = DaysInYear y"
  by (simp add: monthStart_values daysInMonth_def DaysInYear_def)

lemma monthStart_nonneg: "0 \<le> m \<Longrightarrow> m \<le> 11 \<Longrightarrow> 0 \<le> monthStart leap m"
  by (rule month_cases[of m]) (simp_all add: monthStart_values)

lemma monthStart_end:
  "0 \<le> m \<Longrightarrow> m \<le> 11 \<Longrightarrow> monthStart (isLeapYear y) m + daysInMonth y m \<le> DaysInYear y"
  by (rule month_cases[of m]) (simp_all add: monthStart_values daysInMonth_def DaysInYear_def)

lemma daysInMonth_bounds: "28 \<le> daysInMonth y m" "daysInMonth y m \<le> 31"
  by (simp_all add: daysInMonth_def)

lemma month_of_day:
  assumes "0 \<le> m" "m \<le> 11" "monthStart leap m \<le> d" "m \<le> 10 \<longrightarrow> d < monthStart leap (m + 1)"
  shows "(if d < monthStart leap 1 then 0 else if d < monthStart leap 2 then 1
      else if d < monthStart leap 3 then 2 else if d < monthStart leap 4 then 3
      else if d < monthStart leap 5 then 4 else if d < monthStart leap 6 then 5
      else if d < monthStart leap 7 then 6 else if d < monthStart leap 8 then 7
      else if d < monthStart leap 9 then 8 else if d < monthStart leap 10 then 9
      else if d < monthStart leap 11 then 10 else 11) = m"
proof -
  have "m = 0 \<or> m = 1 \<or> m = 2 \<or> m = 3 \<or> m = 4 \<or> m = 5 \<or> m = 6 \<or> m = 7
        \<or> m = 8 \<or> m = 9 \<or> m = 10 \<or> m = 11"
    using assms(1,2) by arith
  then show ?thesis using assms(3,4)
    by (cases leap) (auto simp: monthStart_values)
qed

text \<open>A day of a month of a year is decoded to that year, month and day.\<close>

lemma civil_decode:
  assumes "0 \<le> m" "m \<le> 11" "1 \<le> d" "d \<le> daysInMonth y m"
    "Day t = DayFromYear y + monthStart (isLeapYear y) m + d - 1"
  shows "YearFromTime t = y" "MonthFromTime t = m" "DateFromTime t = d"
proof -
  have lo: "DayFromYear y \<le> Day t"
    using assms(3,5) monthStart_nonneg[OF assms(1,2), of "isLeapYear y"] by simp
  have hi: "Day t < DayFromYear (y + 1)"
    using assms(4,5) monthStart_end[OF assms(1,2), of y] by (simp add: DayFromYear_Suc)
  show y: "YearFromTime t = y" using lo hi by (rule YearFromTime_unique)
  have w: "DayWithinYear t = monthStart (isLeapYear y) m + d - 1"
    by (simp add: DayWithinYear_def y assms(5))
  have w1: "monthStart (isLeapYear y) m \<le> DayWithinYear t" using assms(3) w by simp
  have w2: "m \<le> 10 \<longrightarrow> DayWithinYear t < monthStart (isLeapYear y) (m + 1)"
    using assms(1,4) w by (simp add: monthStart_Suc)
  show m: "MonthFromTime t = m"
    unfolding MonthFromTime_def Let_def y
    using assms(1,2) w1 w2 by (rule month_of_day)
  show "DateFromTime t = d"
    by (simp add: DateFromTime_def y m w)
qed

lemma firstDay_Suc: "firstDay (i + 1) = firstDay i + daysInMonth (i div 12) (i mod 12)"
proof -
  have m: "(i + 1) mod 12 = (i mod 12 + 1) mod 12" by (simp add: mod_add_left_eq)
  have d: "(i + 1) div 12 = i div 12 + (if 12 dvd i + 1 then 1 else 0)"
    by (rule div_step) simp
  have r: "0 \<le> i mod 12" "i mod 12 < 12" by simp_all
  show ?thesis
  proof (cases "i mod 12 = 11")
    case True
    then have m0: "(i + 1) mod 12 = 0" using m by simp
    then have "12 dvd i + 1" by (simp add: mod_eq_0_iff_dvd)
    then have "(i + 1) div 12 = i div 12 + 1" using d by simp
    then show ?thesis
      using monthStart_last[of "i div 12"] True m0
      by (simp add: firstDay_def DayFromYear_Suc monthStart_values)
  next
    case False
    then have r10: "i mod 12 \<le> 10" using r by linarith
    then have m1: "(i + 1) mod 12 = i mod 12 + 1" using m r(1) by simp
    then have "(i + 1) mod 12 \<noteq> 0" using r(1) by linarith
    then have "\<not> 12 dvd i + 1" by (simp add: mod_eq_0_iff_dvd)
    then have "(i + 1) div 12 = i div 12" using d by simp
    then show ?thesis
      using monthStart_Suc[OF r(1) r10, of "i div 12"] m1 by (simp add: firstDay_def)
  qed
qed

lemma MakeDay_firstDay: "MakeDay y m d = firstDay (12 * y + m) + d - 1"
proof -
  have "(12 * y + m) div 12 = y + m div 12" "(12 * y + m) mod 12 = m mod 12" by simp_all
  then show ?thesis by (simp add: MakeDay_def Let_def firstDay_def)
qed

lemma month_index_range: "0 \<le> (i::int) mod 12" "i mod 12 \<le> 11"
  by simp_all

lemma decode_day_of_month:
  assumes "1 \<le> d" "d \<le> daysInMonth (i div 12) (i mod 12)" "Day t = firstDay i + d - 1"
  shows "YearFromTime t = i div 12" "MonthFromTime t = i mod 12" "DateFromTime t = d"
  using civil_decode[OF month_index_range[of i] assms(1,2), of t] assms(3)
  by (simp_all add: firstDay_def)

section \<open>The monthly loop\<close>

lemma newDate_eq:
  "newDate y m d =
     (firstDay (12 * (if 0 \<le> y \<and> y \<le> 99 then 1900 + y else y) + m) + d - 1) * msPerDay"
  by (simp add: newDate_def Let_def MakeDate_def MakeDay_firstDay)

lemma Day_monthStartInstant: "Day (monthStartInstant i) = firstDay i"
  by (simp add: monthStartInstant_def Day_of_midnight)

lemma TimeWithinDay_midnight: "TimeWithinDay (D * msPerDay) = 0"
  by (simp add: TimeWithinDay_def)

lemma decode_monthStartInstant:
  "getFullYear (monthStartInstant i) = i div 12" "getMonth (monthStartInstant i) = i mod 12"
  "DateFromTime (monthStartInstant i) = 1"
  using decode_day_of_month[of 1 i "monthStartInstant i"] daysInMonth_bounds(1)[of "i div 12" "i mod 12"]
  by (simp_all add: Day_monthStartInstant getFullYear_def getMonth_def)

lemma month_index: "12 * (i div 12) + i mod 12 = (i::int)"
  by simp

lemma addMonths_monthStartInstant: "addMonths (monthStartInstant i) 1 = monthStartInstant (i + 1)"
proof -
  have "MakeDay (i div 12) (i mod 12 + 1) 1 = firstDay (i + 1)"
    using month_index[of i] by (simp add: MakeDay_firstDay add.assoc[symmetric])
  then show ?thesis
    using decode_monthStartInstant[of i]
    by (simp add: addMonths_def setMonth_def getFullYear_def getMonth_def MakeDate_def
        monthStartInstant_def TimeWithinDay_midnight)
qed

lemma getDaysInMonth_eq:
  assumes "\<not> (0 \<le> i div 12 \<and> i div 12 \<le> 99)"
  shows "getDaysInMonth (i div 12) (i mod 12) = daysInMonth (i div 12) (i mod 12)"
proof -
  let ?t = "newDate (i div 12) (i mod 12 + 1) 0"
  have y: "(if 0 \<le> i div 12 \<and> i div 12 \<le> 99 then 1900 + i div 12 else i div 12) = i div 12"
    using assms by auto
  have "12 * (i div 12) + (i mod 12 + 1) = i + 1" using month_index[of i] by linarith
  then have "?t = (firstDay (i + 1) + 0 - 1) * msPerDay"
    unfolding newDate_eq y by simp
  then have "Day ?t = firstDay i + daysInMonth (i div 12) (i mod 12) - 1"
    by (simp add: Day_of_midnight firstDay_Suc)
  then have "DateFromTime ?t = daysInMonth (i div 12) (i mod 12)"
    using daysInMonth_bounds(1)[of "i div 12" "i mod 12"]
    by (intro decode_day_of_month(3)[of _ i]) simp_all
  then show ?thesis by (simp add: getDaysInMonth_def getDate_def)
qed

lemma monthStartInstant_Suc:
  "monthStartInstant (i + 1) = monthStartInstant i + daysInMonth (i div 12) (i mod 12) * msPerDay"
  by (simp add: monthStartInstant_def firstDay_Suc distrib_right)

lemma monthStartInstant_less: "monthStartInstant i < monthStartInstant (i + 1)"
  using daysInMonth_bounds(1)[of "i div 12" "i mod 12"]
  by (simp add: monthStartInstant_Suc msPerDay_def)

lemma monthly_candidate:
  assumes "\<not> (0 \<le> i div 12 \<and> i div 12 \<le> 99)" "1 \<le> dayOfMonthN"
  shows "dateAtMinutesNum
           (newDate (i div 12) (i mod 12) (min dayOfMonthN (getDaysInMonth (i div 12) (i mod 12))))
           timeMinutes = fireInstant timeMinutes dayOfMonthN i"
proof (cases timeMinutes)
  case (Fin q)
  let ?cd = "min dayOfMonthN (daysInMonth (i div 12) (i mod 12))"
  have cd: "1 \<le> ?cd" using assms(2) daysInMonth_bounds(1)[of "i div 12" "i mod 12"] by simp
  have y: "(if 0 \<le> i div 12 \<and> i div 12 \<le> 99 then 1900 + i div 12 else i div 12) = i div 12"
    using assms(1) by auto
  have n: "newDate (i div 12) (i mod 12) ?cd = (firstDay i + ?cd - 1) * msPerDay"
    unfolding newDate_eq y by simp
  have "dateAtMinutes (newDate (i div 12) (i mod 12) ?cd) (truncQ q)
        = (firstDay i + ?cd - 1) * msPerDay + truncQ q * msPerMinute"
    unfolding n dateAtMinutes_eq Day_of_midnight by (rule refl)
  then show ?thesis
    using Fin by (simp add: dateAtMinutesNum_def fireInstant_def getDaysInMonth_eq[OF assms(1)]
        monthStartInstant_def algebra_simps)
qed (simp_all add: dateAtMinutesNum_def fireInstant_def)

lemma monthlyLoop_step:
  assumes "\<not> (0 \<le> i div 12 \<and> i div 12 \<le> 99)" "1 \<le> dayOfMonthN"
  shows "monthlyLoop now horizon timeMinutes dayOfMonthN maxCount results (monthStartInstant i) =
     (if length results < maxCount \<and> monthStartInstant i \<le> horizon
      then monthlyLoop now horizon timeMinutes dayOfMonthN maxCount
             (case fireInstant timeMinutes dayOfMonthN i of
                None \<Rightarrow> results
              | Some candidate \<Rightarrow>
                  if candidate > now \<and> candidate \<le> horizon
                  then results @ [candidate] else results)
             (monthStartInstant (i + 1))
      else Some results)"
  by (subst monthlyLoop.simps)
     (simp add: Let_def decode_monthStartInstant addMonths_monthStartInstant
        monthly_candidate[OF assms])

lemma year_of_index: "(1200::int) \<le> i \<Longrightarrow> \<not> (0 \<le> i div 12 \<and> i div 12 \<le> 99)"
proof -
  assume "1200 \<le> i"
  then have "(1200::int) div 12 \<le> i div 12" by (intro zdiv_mono1) simp_all
  then show ?thesis by simp
qed

lemma monthlyLoop_exact:
  assumes "1 \<le> dayOfMonthN"
  shows "1200 \<le> i \<Longrightarrow> length results \<le> maxCount \<Longrightarrow>
     nat (horizon + 1 - monthStartInstant i) \<le> n \<Longrightarrow>
     monthlyLoop now horizon timeMinutes dayOfMonthN maxCount results (monthStartInstant i) =
       Some (results @ take (maxCount - length results)
               (filter (\<lambda>t. now < t \<and> t \<le> horizon)
                  (monthlyCandidates horizon timeMinutes dayOfMonthN n i)))"
proof (induction n arbitrary: i results)
  case 0
  then have "horizon < monthStartInstant i" by simp
  then show ?case
    using monthlyLoop_step[OF year_of_index[OF 0(1)] assms] by simp
next
  case (Suc n)
  note step = monthlyLoop_step[OF year_of_index[OF Suc.prems(1)] assms,
      of now horizon timeMinutes maxCount results]
  show ?case
  proof (cases "length results < maxCount \<and> monthStartInstant i \<le> horizon")
    case False
    then have "length results = maxCount \<or> horizon < monthStartInstant i"
      using Suc.prems(2) by linarith
    then show ?thesis using step False by auto
  next
    case True
    let ?results = "case fireInstant timeMinutes dayOfMonthN i of
                None \<Rightarrow> results
              | Some candidate \<Rightarrow>
                  if candidate > now \<and> candidate \<le> horizon
                  then results @ [candidate] else results"
    have 1: "1200 \<le> i + 1" using Suc.prems(1) by simp
    have 2: "length ?results \<le> maxCount" using True by (simp split: option.split)
    have 3: "nat (horizon + 1 - monthStartInstant (i + 1)) \<le> n"
      using Suc.prems(3) monthStartInstant_less[of i] True by linarith
    have "monthlyLoop now horizon timeMinutes dayOfMonthN maxCount results (monthStartInstant i)
          = Some (?results @ take (maxCount - length ?results)
               (filter (\<lambda>t. now < t \<and> t \<le> horizon)
                  (monthlyCandidates horizon timeMinutes dayOfMonthN n (i + 1))))"
      using Suc.IH[OF 1 2 3] step True by simp
    also have "\<dots> = Some (results @ take (maxCount - length results)
               (filter (\<lambda>t. now < t \<and> t \<le> horizon)
                  (monthlyCandidates horizon timeMinutes dayOfMonthN (Suc n) i)))"
    proof (cases "fireInstant timeMinutes dayOfMonthN i")
      case None
      then show ?thesis using True by simp
    next
      case (Some c)
      show ?thesis
      proof (cases "now < c \<and> c \<le> horizon")
        case False
        then show ?thesis using True Some by auto
      next
        case P: True
        have "maxCount - length results = Suc (maxCount - Suc (length results))"
          using True by arith
        then have "take (maxCount - length results)
                     (c # filter (\<lambda>t. now < t \<and> t \<le> horizon)
                            (monthlyCandidates horizon timeMinutes dayOfMonthN n (i + 1)))
                   = c # take (maxCount - Suc (length results))
                        (filter (\<lambda>t. now < t \<and> t \<le> horizon)
                            (monthlyCandidates horizon timeMinutes dayOfMonthN n (i + 1)))"
          by simp
        then show ?thesis using True Some P by simp
      qed
    qed
    finally show ?thesis .
  qed
qed

lemma fireInstant_bounds:
  assumes "1 \<le> dayOfMonthN" "fireInstant timeMinutes dayOfMonthN i = Some c" "timeMinutes = Fin q"
  shows "monthStartInstant i + truncQ q * msPerMinute \<le> c"
    "c < monthStartInstant (i + 1) + truncQ q * msPerMinute"
proof -
  let ?cd = "min dayOfMonthN (daysInMonth (i div 12) (i mod 12))"
  have c: "c = monthStartInstant i + (?cd - 1) * msPerDay + truncQ q * msPerMinute"
    using assms(2,3) by (simp add: fireInstant_def)
  have cd: "1 \<le> ?cd" "?cd \<le> daysInMonth (i div 12) (i mod 12)"
    using assms(1) daysInMonth_bounds(1)[of "i div 12" "i mod 12"] by simp_all
  have "0 \<le> (?cd - 1) * msPerDay" using cd(1) by (simp add: msPerDay_def)
  then show "monthStartInstant i + truncQ q * msPerMinute \<le> c" unfolding c by linarith
  have "(?cd - 1) * msPerDay < daysInMonth (i div 12) (i mod 12) * msPerDay"
    using cd(2) by (simp add: msPerDay_def)
  then show "c < monthStartInstant (i + 1) + truncQ q * msPerMinute"
    unfolding c monthStartInstant_Suc by linarith
qed

lemma monthlyCandidates_not_finite:
  "\<not> isFinite timeMinutes \<Longrightarrow> monthlyCandidates horizon timeMinutes dayOfMonthN n i = []"
  by (induction n arbitrary: i) (auto simp: fireInstant_def isFinite_def split: number.splits)

lemma monthlyCandidates_sorted_Fin:
  assumes "1 \<le> dayOfMonthN"
  shows "sorted_wrt (<) (monthlyCandidates horizon (Fin q) dayOfMonthN n i) \<and>
         (\<forall>t \<in> set (monthlyCandidates horizon (Fin q) dayOfMonthN n i).
            monthStartInstant i + truncQ q * msPerMinute \<le> t)"
proof (induction n arbitrary: i)
  case 0
  show ?case by simp
next
  case (Suc n)
  let ?rest = "monthlyCandidates horizon (Fin q) dayOfMonthN n (i + 1)"
  have later: "\<forall>t \<in> set ?rest. monthStartInstant (i + 1) + truncQ q * msPerMinute \<le> t"
    using Suc.IH[of "i + 1"] by blast
  have srt: "sorted_wrt (<) ?rest"
    using Suc.IH[of "i + 1"] by blast
  obtain c where c: "fireInstant (Fin q) dayOfMonthN i = Some c"
    by (simp add: fireInstant_def)
  note b = fireInstant_bounds[OF assms c refl]
  have l1: "\<forall>t \<in> set ?rest. c < t"
  proof
    fix t assume "t \<in> set ?rest"
    then have "monthStartInstant (i + 1) + truncQ q * msPerMinute \<le> t" using later by blast
    then show "c < t" using b(2) by linarith
  qed
  have l2: "\<forall>t \<in> set ?rest. monthStartInstant i + truncQ q * msPerMinute \<le> t"
  proof
    fix t assume "t \<in> set ?rest"
    then have "c < t" using l1 by blast
    then show "monthStartInstant i + truncQ q * msPerMinute \<le> t" using b(1) by linarith
  qed
  have eq: "monthlyCandidates horizon (Fin q) dayOfMonthN (Suc n) i =
            (if monthStartInstant i \<le> horizon then c # ?rest else [])"
    using c by simp
  show ?case unfolding eq using srt l1 l2 b(1) by simp
qed

lemma monthlyCandidates_sorted:
  "1 \<le> dayOfMonthN \<Longrightarrow> sorted_wrt (<) (monthlyCandidates horizon timeMinutes dayOfMonthN n i)"
  using monthlyCandidates_sorted_Fin[of dayOfMonthN horizon _ n i]
    monthlyCandidates_not_finite[of timeMinutes horizon dayOfMonthN n i]
  by (cases timeMinutes) (simp_all add: isFinite_def)

lemma inBounds_take_filter:
  "sorted_wrt (<) ts \<Longrightarrow>
   inBounds now horizon maxCount (take maxCount (filter (\<lambda>t. now < t \<and> t \<le> horizon) ts))"
proof -
  assume s: "sorted_wrt (<) ts"
  let ?r = "take maxCount (filter (\<lambda>t. now < t \<and> t \<le> horizon) ts)"
  have "sorted_wrt (<) (filter (\<lambda>t. now < t \<and> t \<le> horizon) ts)"
    using s by (rule sorted_wrt_filter)
  then have 1: "sorted_wrt (<) ?r"
    by (rule sorted_wrt_take)
  have 2: "\<forall>t \<in> set ?r. now < t \<and> t \<le> horizon"
  proof
    fix t assume "t \<in> set ?r"
    then have "t \<in> set (filter (\<lambda>t. now < t \<and> t \<le> horizon) ts)" by (rule in_set_takeD)
    then show "now < t \<and> t \<le> horizon" by simp
  qed
  have 3: "length ?r \<le> maxCount" by simp
  show ?thesis unfolding inBounds_def using 1 2 3 by blast
qed

lemma normalizeDaysOfWeek_mask: "length flags = 7 \<Longrightarrow> normalizeDaysOfWeek (Some flags) = flags"
  by (simp add: normalizeDaysOfWeek_def)

lemma newDate_monthStartInstant:
  "newDate y m 1 = monthStartInstant (12 * (if 0 \<le> y \<and> y \<le> 99 then 1900 + y else y) + m)"
  by (simp add: newDate_eq monthStartInstant_def)

text \<open>The monthly loop ends from the first day of any month, and keeps what it pushes
  within the bounds.\<close>

lemma inBounds_withinBounds: "inBounds now horizon maxCount ts \<Longrightarrow> withinBounds now horizon maxCount ts"
  by (simp add: inBounds_def withinBounds_def)

lemma monthlyLoop_total:
  "withinBounds now horizon maxCount results \<Longrightarrow>
   \<exists>r. monthlyLoop now horizon timeMinutes dayOfMonthN maxCount results (monthStartInstant i) = Some r
       \<and> withinBounds now horizon maxCount r"
proof (induction "nat (horizon + 1 - monthStartInstant i)" arbitrary: results i rule: less_induct)
  case less
  show ?case
  proof (cases "length results < maxCount \<and> monthStartInstant i \<le> horizon")
    case False
    then show ?thesis using less.prems by (subst monthlyLoop.simps) auto
  next
    case True
    define c where "c = dateAtMinutesNum
        (newDate (getFullYear (monthStartInstant i)) (getMonth (monthStartInstant i))
           (min dayOfMonthN (getDaysInMonth (getFullYear (monthStartInstant i))
              (getMonth (monthStartInstant i))))) timeMinutes"
    define results1 where "results1 = (case c of None \<Rightarrow> results
        | Some candidate \<Rightarrow> if candidate > now \<and> candidate \<le> horizon
                            then results @ [candidate] else results)"
    have eq: "monthlyLoop now horizon timeMinutes dayOfMonthN maxCount results (monthStartInstant i)
        = monthlyLoop now horizon timeMinutes dayOfMonthN maxCount results1 (monthStartInstant (i + 1))"
      unfolding results1_def c_def using True
      by (subst monthlyLoop.simps) (simp add: Let_def addMonths_monthStartInstant)
    have m: "nat (horizon + 1 - monthStartInstant (i + 1)) < nat (horizon + 1 - monthStartInstant i)"
      using True monthStartInstant_less[of i] by linarith
    have 1: "withinBounds now horizon maxCount results1"
      using less.prems True by (cases c) (auto simp: results1_def withinBounds_def)
    show ?thesis using less.hyps[OF m 1] eq by simp
  qed
qed

lemma generateMonthlyDates_total:
  "\<exists>r. generateMonthlyDates now timeMinutes dayOfMonthIn maxCountIn horizonHoursIn = Some r
       \<and> withinBounds now (now + (case horizonHoursIn of None \<Rightarrow> 24 | Some h \<Rightarrow> h) * 60 * 60 * 1000)
            (case maxCountIn of None \<Rightarrow> 50 | Some n \<Rightarrow> n) r"
  unfolding generateMonthlyDates_def Let_def newDate_monthStartInstant
  by (rule monthlyLoop_total) (simp add: withinBounds_def)

lemma normalizeDayOfMonth_range: "1 \<le> normalizeDayOfMonth v \<and> normalizeDayOfMonth v \<le> 31"
proof (cases v)
  case None
  then show ?thesis by (simp add: normalizeDayOfMonth_def DEFAULT_DAY_OF_MONTH_def)
next
  case (Some x)
  then show ?thesis
    by (cases x) (simp_all add: normalizeDayOfMonth_def DEFAULT_DAY_OF_MONTH_def Let_def)
qed

text \<open>The result of the monthly generator, for an instant \<open>now\<close> in a year that the Date
  constructor reads as given or as a later one (from year 0 on).\<close>

lemma generateMonthlyDates_exact:
  assumes "0 \<le> getFullYear now"
  defines "i0 \<equiv> 12 * (if getFullYear now \<le> 99 then 1900 + getFullYear now else getFullYear now)
                  + getMonth now"
  shows "generateMonthlyDates now timeMinutes dayOfMonthIn maxCountIn horizonHoursIn =
     Some (take (case maxCountIn of None \<Rightarrow> 50 | Some n \<Rightarrow> n)
       (filter (\<lambda>t. now < t
                  \<and> t \<le> now + (case horizonHoursIn of None \<Rightarrow> 24 | Some h \<Rightarrow> h) * 60 * 60 * 1000)
          (monthlyCandidates
             (now + (case horizonHoursIn of None \<Rightarrow> 24 | Some h \<Rightarrow> h) * 60 * 60 * 1000)
             timeMinutes (normalizeDayOfMonth (Some dayOfMonthIn))
             (nat (now + (case horizonHoursIn of None \<Rightarrow> 24 | Some h \<Rightarrow> h) * 60 * 60 * 1000 + 1
                   - monthStartInstant i0))
             i0)))"
proof -
  have m: "0 \<le> getMonth now" using MonthFromTime_range[of now] by (simp add: getMonth_def)
  have i0: "1200 \<le> i0" using assms(1) m unfolding i0_def by (simp split: if_splits)
  have c: "newDate (getFullYear now) (getMonth now) 1 = monthStartInstant i0"
    using assms(1) by (simp add: newDate_monthStartInstant i0_def)
  have d: "1 \<le> normalizeDayOfMonth (Some dayOfMonthIn)"
    using normalizeDayOfMonth_range by blast
  show ?thesis
    unfolding generateMonthlyDates_def Let_def c
    using monthlyLoop_exact[OF d i0, of "[]" _ _ _ now timeMinutes]
    by simp
qed

lemma generateMonthlyDates_inBounds:
  assumes "0 \<le> getFullYear now"
  shows "\<exists>r. generateMonthlyDates now timeMinutes dayOfMonthIn maxCountIn horizonHoursIn = Some r
       \<and> inBounds now (now + (case horizonHoursIn of None \<Rightarrow> 24 | Some h \<Rightarrow> h) * 60 * 60 * 1000)
            (case maxCountIn of None \<Rightarrow> 50 | Some n \<Rightarrow> n) r"
proof -
  have d: "1 \<le> normalizeDayOfMonth (Some dayOfMonthIn)"
    using normalizeDayOfMonth_range by blast
  show ?thesis
    unfolding generateMonthlyDates_exact[OF assms]
    by (rule exI, rule conjI, rule refl, rule inBounds_take_filter,
        rule monthlyCandidates_sorted, rule d)
qed

lemma generateFireDates_inBounds:
  "\<exists>r. generateFireDates now intervalIn startIn endIn daysIn maxCountIn horizonHoursIn = Some r
       \<and> inBounds now (now + (case horizonHoursIn of None \<Rightarrow> 24 | Some h \<Rightarrow> h) * 60 * 60 * 1000)
            (case maxCountIn of None \<Rightarrow> 50 | Some n \<Rightarrow> n) r"
  using generateFireDatesVia_inBounds[of now intervalIn startIn endIn daysIn maxCountIn horizonHoursIn]
  by (auto simp: generateFireDates_def)

lemma datesFor_inBounds:
  assumes "rule_type schedule = Monthly \<longrightarrow> 0 \<le> getFullYear now"
  shows "\<exists>ds. datesFor now maxCount horizonHours schedule = Some ds
       \<and> inBounds now (now + horizonHours * 60 * 60 * 1000) maxCount ds"
proof (cases "rule_type schedule")
  case WithinDay
  then show ?thesis
    using generateFireDates_inBounds[of now _ _ _ _ "Some maxCount" "Some horizonHours"]
    by (simp add: datesFor_def)
next
  case Daily
  then show ?thesis
    using generateFixedTimeDates_inBounds[of now _ _ "Some maxCount" "Some horizonHours"]
    by (simp add: datesFor_def)
next
  case Weekly
  then show ?thesis
    using generateFixedTimeDates_inBounds[of now _ _ "Some maxCount" "Some horizonHours"]
    by (simp add: datesFor_def)
next
  case Monthly
  then show ?thesis
    using generateMonthlyDates_inBounds[of now _ _ "Some maxCount" "Some horizonHours"] assms
    by (simp add: datesFor_def)
qed

lemma datesFor_total:
  "\<exists>ds. datesFor now maxCount horizonHours schedule = Some ds
       \<and> withinBounds now (now + horizonHours * 60 * 60 * 1000) maxCount ds"
proof (cases "rule_type schedule = Monthly")
  case True
  then show ?thesis
    using generateMonthlyDates_total[of now _ _ "Some maxCount" "Some horizonHours"]
    by (simp add: datesFor_def)
next
  case False
  then show ?thesis
    using datesFor_inBounds[of schedule now maxCount horizonHours] inBounds_withinBounds
    by blast
qed

lemma datesFor_ruleDates:
  "datesFor now maxCount horizonHours schedule = Some (ruleDates now maxCount horizonHours schedule)"
proof -
  obtain ds where "datesFor now maxCount horizonHours schedule = Some ds"
    using datesFor_total[of now maxCount horizonHours schedule] by blast
  then show ?thesis by (simp add: ruleDates_def)
qed

lemma combine_eq:
  "combine now maxCount horizonHours schedules combined =
     Some (combined @ concat (map (\<lambda>s. map (notify s) (ruleDates now maxCount horizonHours s))
                               schedules))"
  by (induction schedules arbitrary: combined) (simp_all add: datesFor_ruleDates)

lemma buildNotificationQueue_eq:
  "buildNotificationQueue now schedules maxCountIn horizonHoursIn =
     Some (take (case maxCountIn of None \<Rightarrow> 50 | Some n \<Rightarrow> n)
            (sort_key date
               (concat (map (\<lambda>s. map (notify s)
                   (ruleDates now (case maxCountIn of None \<Rightarrow> 50 | Some n \<Rightarrow> n)
                      (case horizonHoursIn of None \<Rightarrow> 24 | Some h \<Rightarrow> h) s)) schedules))))"
  by (simp add: buildNotificationQueue_def Let_def combine_eq)




lemma Day_eval: "Day 1704096600000 = 19723"
  by (simp add: Day_def msPerDay_def)

lemma year_eval: "getFullYear 1704096600000 = 2024"
  unfolding getFullYear_def
  by (rule YearFromTime_unique) (simp_all add: Day_eval DayFromYear_def)

lemma monthly_rule_dates:
  "rule_type schedule = Monthly \<Longrightarrow>
   ruleDates now maxCount horizonHours (schedule\<lparr>daysOfWeek := flags\<rparr>)
     = ruleDates now maxCount horizonHours schedule"
  by (simp add: ruleDates_def datesFor_def)

subsection \<open>Evaluating the monthly generator\<close>

lemma monthlyCandidates_unfold:
  "monthlyCandidates horizon timeMinutes dayOfMonthN n i =
     (if n = 0 then []
      else if monthStartInstant i \<le> horizon
      then (case fireInstant timeMinutes dayOfMonthN i of None \<Rightarrow> [] | Some c \<Rightarrow> [c])
           @ monthlyCandidates horizon timeMinutes dayOfMonthN (n - 1) (i + 1)
      else [])"
  by (cases n) simp_all

lemma decode_eval:
  assumes "Day t = DayFromYear y + monthStart (isLeapYear y) m + d - 1"
    "0 \<le> m" "m \<le> 11" "1 \<le> d" "d \<le> daysInMonth y m"
  shows "getFullYear t = y \<and> getMonth t = m \<and> getDate t = d"
  using civil_decode[OF assms(2-5) assms(1)] by (simp add: getFullYear_def getMonth_def getDate_def)

text \<open>15 February 2023, 12:00, and 15 February of the year 50, 12:00.\<close>

lemma feb15_2023: "getFullYear 1676462400000 = 2023 \<and> getMonth 1676462400000 = 1
    \<and> getDate 1676462400000 = 15"
  by (rule decode_eval)
     (simp_all add: Day_def msPerDay_def DayFromYear_def isLeapYear_def monthStart_values
        daysInMonth_def)

lemma feb15_50: "getFullYear (- 60585364800000) = 50 \<and> getMonth (- 60585364800000) = 1
    \<and> getDate (- 60585364800000) = 15"
  by (rule decode_eval)
     (simp_all add: Day_def msPerDay_def DayFromYear_def isLeapYear_def monthStart_values
        daysInMonth_def)

lemma monthStartInstant_eval:
  "monthStartInstant 24277 = 1675209600000" "monthStartInstant 24278 = 1677628800000"
  "monthStartInstant 24279 = 1680307200000" "monthStartInstant 24280 = 1682899200000"
  "monthStartInstant 23401 = - 628473600000"
  by (simp_all add: monthStartInstant_def firstDay_def DayFromYear_def isLeapYear_def
      monthStart_values msPerDay_def)

lemma fireInstant_eval:
  "fireInstant (Fin 540) 31 24277 = Some 1677574800000"
  "fireInstant (Fin 540) 31 24278 = Some 1680253200000"
  "fireInstant (Fin 540) 31 24279 = Some 1682845200000"
  by (simp_all add: fireInstant_def monthStartInstant_eval daysInMonth_def isLeapYear_def
      truncQ_def msPerDay_def msPerMinute_def)

lemma Math_round_of_int: "Math_round (of_int n) = n"
  unfolding Math_round_def by (rule floor_unique) simp_all

lemma normalizeDayOfMonth_of_int:
  "normalizeDayOfMonth (Some (Fin (of_int n))) = (if n < 1 then 1 else if n > 31 then 31 else n)"
  by (simp add: normalizeDayOfMonth_def Math_round_of_int Let_def)

lemma normalizeDayOfMonth_31: "normalizeDayOfMonth (Some (Fin 31)) = 31"
  using normalizeDayOfMonth_of_int[of 31] by simp

lemma monthly_feb_default_cap:
  "generateMonthlyDates 1676462400000 (Fin 540) (Fin 31) None (Some 336) = Some [1677574800000]"
  by (subst generateMonthlyDates_exact)
     (simp_all add: feb15_2023 normalizeDayOfMonth_31 monthStartInstant_eval fireInstant_eval
       monthlyCandidates_unfold)

lemma monthly_feb_cap_one:
  "generateMonthlyDates 1676462400000 (Fin 540) (Fin 31) (Some 1) (Some 1440)
     = Some [1677574800000]"
  by (subst generateMonthlyDates_exact)
     (simp_all add: feb15_2023 normalizeDayOfMonth_31 monthStartInstant_eval fireInstant_eval
       monthlyCandidates_unfold)

lemma monthly_feb_two_months:
  "generateMonthlyDates 1676462400000 (Fin 540) (Fin 31) None (Some 1440)
     = Some [1677574800000, 1680253200000]"
  by (subst generateMonthlyDates_exact)
     (simp_all add: feb15_2023 normalizeDayOfMonth_31 monthStartInstant_eval fireInstant_eval
       monthlyCandidates_unfold)


lemma monthly_year_50:
  "generateMonthlyDates (- 60585364800000) (Fin 540) (Fin 31) None (Some 336) = Some []"
  by (subst generateMonthlyDates_exact)
     (simp_all add: feb15_50 normalizeDayOfMonth_31 monthStartInstant_eval fireInstant_eval
       monthlyCandidates_unfold)

text \<open>The instant computed in a month lies in that month, on the day
  \<open>min dayOfMonth (days in the month)\<close>, at the given minute of the day.\<close>

lemma fireInstant_decode:
  assumes "1 \<le> dayOfMonthN" "0 \<le> truncQ q" "truncQ q < 1440"
  shows "\<exists>c. fireInstant (Fin q) dayOfMonthN i = Some c
     \<and> getFullYear c = i div 12 \<and> getMonth c = i mod 12
     \<and> getDate c = min dayOfMonthN (daysInMonth (i div 12) (i mod 12))
     \<and> minutesSinceMidnight c = truncQ q"
proof -
  let ?cd = "min dayOfMonthN (daysInMonth (i div 12) (i mod 12))"
  let ?c = "(firstDay i + ?cd - 1) * msPerDay + truncQ q * msPerMinute"
  have c: "fireInstant (Fin q) dayOfMonthN i = Some ?c"
    by (simp add: fireInstant_def monthStartInstant_def algebra_simps)
  have t: "0 \<le> truncQ q * msPerMinute" "truncQ q * msPerMinute < msPerDay"
    using assms(2,3) by (simp_all add: msPerMinute_def msPerDay_def)
  have d: "Day ?c = firstDay i + ?cd - 1" using t by (rule Day_of_parts)
  have cd: "1 \<le> ?cd" "?cd \<le> daysInMonth (i div 12) (i mod 12)"
    using assms(1) daysInMonth_bounds(1)[of "i div 12" "i mod 12"] by simp_all
  note dec = decode_day_of_month[OF cd d]
  have "TimeWithinDay ?c = truncQ q * msPerMinute" using t by (rule TimeWithinDay_of_parts)
  then have m: "minutesSinceMidnight ?c = truncQ q"
    by (simp add: minutesSinceMidnight_eq msPerMinute_def)
  show ?thesis
    using c dec m by (simp add: getFullYear_def getMonth_def getDate_def)
qed

subsection \<open>The monthly loop from a year before 0\<close>













subsection \<open>Normalisation of a rule's numbers\<close>

lemma normalizeMinutes_Fin: "normalizeMinutes (Fin q) = \<lfloor>q\<rfloor> mod 1440"
proof -
  define a where "a = \<lfloor>q\<rfloor>"
  have "(let normalized = remInt a (24 * 60)
         in if normalized < 0 then normalized + 24 * 60 else normalized) = a mod 1440"
  proof (cases "0 \<le> a")
    case True
    then have "remInt a 1440 = a mod 1440" by (cases "a = 0") (simp_all add: remInt_def)
    then show ?thesis by (simp add: Let_def)
  next
    case False
    then have s: "sgn a = - 1" "\<bar>a\<bar> = - a" by simp_all
    have r: "remInt a 1440 = - ((- a) mod 1440)" by (simp add: remInt_def s)
    show ?thesis
    proof (cases "(- a) mod 1440 = 0")
      case True
      then have "a mod 1440 = 0" by (metis mod_minus_eq minus_minus minus_zero mod_0)
      then show ?thesis using True r by (simp add: Let_def)
    next
      case nz: False
      have "0 < (- a) mod 1440" using nz pos_mod_sign[of 1440 "- a"] by linarith
      moreover have "a mod 1440 = 1440 - (- a) mod 1440"
        using zmod_zminus1_eq_if[of "- a" 1440] nz by simp
      ultimately show ?thesis using r by (simp add: Let_def)
    qed
  qed
  then show ?thesis by (simp add: normalizeMinutes_def a_def)
qed

lemma normalizeMinutes_idem: "normalizeMinutes (Fin (of_int (normalizeMinutes v))) = normalizeMinutes v"
  using normalizeMinutes_range[of v] by (simp add: normalizeMinutes_Fin)

lemma clamp_idem:
  "clamp (Fin (clamp v MIN_INTERVAL MAX_INTERVAL)) MIN_INTERVAL MAX_INTERVAL
     = clamp v MIN_INTERVAL MAX_INTERVAL"
  by (cases v) (simp_all add: clamp_def MIN_INTERVAL_def MAX_INTERVAL_def)

lemma normalizeDayOfMonth_idem:
  "normalizeDayOfMonth (Some (Fin (of_int (normalizeDayOfMonth v)))) = normalizeDayOfMonth v"
  using normalizeDayOfMonth_range[of v] by (simp add: normalizeDayOfMonth_of_int)

lemma all_days_active: "(\<exists>d \<in> set (normalizeDaysOfWeek None). d) = True"
  by (simp add: normalizeDaysOfWeek_def DEFAULT_DAYS_def)

lemma weekday_cases:
  obtains "getDay d = 0" | "getDay d = 1" | "getDay d = 2" | "getDay d = 3" | "getDay d = 4"
    | "getDay d = 5" | "getDay d = 6"
proof -
  have "0 \<le> (Day d + 4) mod 7" "(Day d + 4) mod 7 < 7" by simp_all
  then have "getDay d = 0 \<or> getDay d = 1 \<or> getDay d = 2 \<or> getDay d = 3 \<or> getDay d = 4
      \<or> getDay d = 5 \<or> getDay d = 6"
    unfolding getDay_def WeekDay_def by arith
  then show ?thesis using that by blast
qed

lemma isDayActive_default: "isDayActive d (normalizeDaysOfWeek None) = True"
  by (rule weekday_cases[of d])
     (simp_all add: isDayActive_def normalizeDaysOfWeek_def DEFAULT_DAYS_def Let_def)

lemmas fixed_eval =
  generateFixedTimeDates_def Let_def all_days_active isDayActive_default startOfDay_eq Day_def
  msPerDay_def msPerMinute_def dateAtMinutesNum_def dateAtMinutes_eq truncQ_def addDays_eq

text \<open>Monday 1 January 2024, 00:00, with the default count and horizon.\<close>

lemma daily_1500: "generateFixedTimeDates 1704067200000 (Fin 1500) None None None = Some []"
  by (simp add: fixed_eval fixedTimeLoop.simps)

lemma daily_60:
  "generateFixedTimeDates 1704067200000 (Fin 60) None None None = Some [1704070800000]"
  by (simp add: fixed_eval fixedTimeLoop.simps)

lemma daily_1439:
  "generateFixedTimeDates 1704067200000 (Fin 1439) None None None = Some [1704153540000]"
  by (simp add: fixed_eval fixedTimeLoop.simps)

lemma normalizeDayOfMonth_40: "normalizeDayOfMonth (Some (Fin 40)) = 31"
  using normalizeDayOfMonth_of_int[of 40] by simp

lemma normalizeDayOfMonth_1: "normalizeDayOfMonth (Some (Fin 1)) = 1"
  using normalizeDayOfMonth_of_int[of 1] by simp

lemma fireInstant_eval_day1:
  "fireInstant (Fin 540) 1 24277 = Some 1675242000000"
  "fireInstant (Fin 540) 1 24278 = Some 1677661200000"
  by (simp_all add: fireInstant_def monthStartInstant_eval daysInMonth_def isLeapYear_def
      truncQ_def msPerDay_def msPerMinute_def)

lemma monthly_day_40:
  "generateMonthlyDates 1676462400000 (Fin 540) (Fin 40) None (Some 336) = Some [1677574800000]"
  by (subst generateMonthlyDates_exact)
     (simp_all add: feb15_2023 normalizeDayOfMonth_40 monthStartInstant_eval fireInstant_eval
       monthlyCandidates_unfold)

lemma monthly_day_1:
  "generateMonthlyDates 1676462400000 (Fin 540) (Fin 1) None (Some 336) = Some [1677661200000]"
  by (subst generateMonthlyDates_exact)
     (simp_all add: feb15_2023 normalizeDayOfMonth_1 monthStartInstant_eval fireInstant_eval_day1
       monthlyCandidates_unfold)

subsection \<open>Evaluating the within-day generator\<close>

lemma remQ_of_int: "0 \<le> a \<Longrightarrow> 0 < n \<Longrightarrow> remQ (of_int a) (of_int n) = of_int (a mod n)"
proof -
  assume a: "0 \<le> a" and n: "0 < n"
  have "0 \<le> (of_int a :: rat) / of_int n" using a n by simp
  then have "truncQ (of_int a / of_int n) = a div n"
    by (simp add: truncQ_def floor_divide_of_int_eq)
  then have "remQ (of_int a) (of_int n) = of_int (a - n * (a div n))"
    by (simp add: remQ_def)
  also have "a - n * (a div n) = a mod n" by (simp add: minus_mult_div_eq_mod)
  finally show ?thesis .
qed

lemma alignToInterval_of_int:
  assumes "0 < n"
  shows "alignToInterval windowStart cursor (of_int n) =
     cursor + (if max 0 ((cursor - windowStart) div 60000) mod n = 0 then 0
               else n - max 0 ((cursor - windowStart) div 60000) mod n) * msPerMinute"
proof -
  define diff where "diff = max 0 ((cursor - windowStart) div 60000)"
  have d: "0 \<le> diff" by (simp add: diff_def)
  have r: "remQ (of_int diff) (of_int n) = of_int (diff mod n)"
    using d assms by (rule remQ_of_int)
  have "alignToInterval windowStart cursor (of_int n) =
      addMinutes cursor (of_int (if diff mod n = 0 then 0 else n - diff mod n))"
    unfolding alignToInterval_def Let_def diff_def[symmetric] r by simp
  then show ?thesis unfolding addMinutes_of_int diff_def by simp
qed

lemma alignToInterval_60:
  "alignToInterval windowStart cursor 60 =
     cursor + (if max 0 ((cursor - windowStart) div 60000) mod 60 = 0 then 0
               else 60 - max 0 ((cursor - windowStart) div 60000) mod 60) * msPerMinute"
  using alignToInterval_of_int[of 60 windowStart cursor] by simp

lemma addMinutes_60: "addMinutes d 60 = d + 3600000"
  using addMinutes_of_int[of d 60] by (simp add: msPerMinute_def)

lemma clamp_60: "clamp (Fin 60) MIN_INTERVAL MAX_INTERVAL = 60"
  by (simp add: clamp_def MIN_INTERVAL_def MAX_INTERVAL_def)

lemma some_true: "(\<exists>x::bool. x) = True"
  by blast

lemmas fire_eval = some_true
  generateFireDatesVia_def generateFireDates_def generateFallbackDates_def Let_def clamp_60
  normalizeMinutes_Fin normalizeDaysOfWeek_def DEFAULT_DAYS_def
  isWithinWindow_def nextWindowStart_def windowFor_def minutesSinceMidnight_eq TimeWithinDay_def
  dateAtMinutes_eq Day_def addDays_eq startOfDay_eq isDayActive_def getDay_def WeekDay_def
  alignToInterval_60 addMinutes_60 addMinutes_one setSeconds0_eq msPerDay_def msPerMinute_def

text \<open>Monday 1 January 2024, 20:00: window 21:00 to 06:00, every 60 minutes.\<close>

lemma spanning_monday_only:
  "generateFireDatesVia 1704139200000 (Fin 60) (Fin 1260) (Fin 360)
     (Some [True, False, False, False, False, False, False]) None (Some 24)
   = Some (WindowSearch, [1704142800000, 1704146400000, 1704150000000])"
  by (simp add: fire_eval fireLoop.simps windowCandidates.simps)

lemma spanning_all_days:
  "generateFireDatesVia 1704139200000 (Fin 60) (Fin 1260) (Fin 360)
     (Some [True, True, True, True, True, True, True]) None (Some 24)
   = Some (WindowSearch, [1704142800000, 1704146400000, 1704150000000, 1704153600000,
       1704157200000, 1704160800000, 1704164400000, 1704168000000, 1704171600000])"
  by (simp add: fire_eval fireLoop.simps windowCandidates.simps)

text \<open>Monday 1 January 2024, 08:10 and 08:10:30: all day, every 60 minutes.\<close>

lemma all_day_on_the_minute:
  "generateFireDates 1704096600000 (Fin 60) (Fin 0) (Fin 0) None (Some 3) (Some 24)
   = Some [1704099600000, 1704103200000, 1704106800000]"
  by (simp add: fire_eval fireLoop.simps windowCandidates.simps)

lemma all_day_with_seconds:
  "generateFireDates 1704096630000 (Fin 60) (Fin 0) (Fin 0) None (Some 3) (Some 24)
   = Some [1704099630000, 1704103230000, 1704106830000]"
  by (simp add: fire_eval fireLoop.simps windowCandidates.simps)

subsection \<open>The fallback sweep\<close>

lemma fallbackLoop_exact:
  assumes "1 \<le> interval"
  shows "length results \<le> maxCount \<Longrightarrow> nat (horizon + 1 - c) \<le> n \<Longrightarrow>
     fallbackLoop horizon interval s e allDay sp days maxCount results c =
       Some (results @ take (maxCount - length results)
               (filter (\<lambda>t. (allDay \<or> isWithinWindow t s e sp) \<and> isDayActive t days)
                  (sweep horizon interval n c)))"
proof (induction n arbitrary: c results)
  case 0
  then have "horizon < c" by simp
  then show ?case by (subst fallbackLoop.simps) simp
next
  case (Suc n)
  show ?case
  proof (cases "length results < maxCount \<and> c \<le> horizon")
    case False
    then have "length results = maxCount \<or> horizon < c" using Suc.prems(1) by linarith
    then show ?thesis using False by (subst fallbackLoop.simps) auto
  next
    case True
    let ?ok = "(allDay \<or> isWithinWindow c s e sp) \<and> isDayActive c days"
    let ?results = "if ?ok then results @ [c] else results"
    let ?rest = "filter (\<lambda>t. (allDay \<or> isWithinWindow t s e sp) \<and> isDayActive t days)
                   (sweep horizon interval n (addMinutes c interval))"
    have 1: "length ?results \<le> maxCount" using True by simp
    have 2: "nat (horizon + 1 - addMinutes c interval) \<le> n"
      using Suc.prems(2) addMinutes_gt[OF assms, of c] True by linarith
    have "fallbackLoop horizon interval s e allDay sp days maxCount results c
          = fallbackLoop horizon interval s e allDay sp days maxCount ?results
              (addMinutes c interval)"
      using True by (subst fallbackLoop.simps) simp
    also have "\<dots> = Some (?results @ take (maxCount - length ?results) ?rest)"
      using Suc.IH[OF 1 2] .
    also have "\<dots> = Some (results @ take (maxCount - length results)
               (filter (\<lambda>t. (allDay \<or> isWithinWindow t s e sp) \<and> isDayActive t days)
                  (sweep horizon interval (Suc n) c)))"
    proof (cases ?ok)
      case False
      then show ?thesis using True by auto
    next
      case ok: True
      have "maxCount - length results = Suc (maxCount - Suc (length results))"
        using True by arith
      then have "take (maxCount - length results) (c # ?rest)
                 = c # take (maxCount - Suc (length results)) ?rest"
        by simp
      then show ?thesis using True ok by simp
    qed
    finally show ?thesis .
  qed
qed

lemma generateFallbackDates_exact:
  assumes "1 \<le> interval"
  shows "generateFallbackDates now interval s e days maxCount horizonHours =
     Some (take maxCount
       (filter (\<lambda>t. (s = e \<or> isWithinWindow t s e (e < s)) \<and> isDayActive t days)
          (sweep (now + horizonHours * 60 * 60 * 1000) interval
             (nat (now + horizonHours * 60 * 60 * 1000 + 1
                   - setSeconds0 (addMinutes now interval)))
             (setSeconds0 (addMinutes now interval)))))"
  unfolding generateFallbackDates_def Let_def
  using fallbackLoop_exact[OF assms, of "[]" maxCount] by simp

lemma no_active_day:
  assumes "\<not> (\<exists>d \<in> set days. d)"
  shows "isDayActive t days = False"
proof -
  have "\<not> (i < length days \<and> days ! i)" for i
  proof
    assume a: "i < length days \<and> days ! i"
    have "days ! i \<in> set days" using a by (intro nth_mem) blast
    then show False using a assms by blast
  qed
  then show ?thesis unfolding isDayActive_def Let_def by simp
qed

text \<open>Monday 1 January 2024, 22:10: window 23:30 to 00:20, every 60 minutes, only Tuesday
  active; and Monday 04:00: window 02:00 to 03:00 with a horizon of one hour.\<close>

lemma fallback_tuesday:
  "generateFireDatesVia 1704147000000 (Fin 60) (Fin 1410) (Fin 20)
     (Some [False, True, False, False, False, False, False]) None (Some 24)
   = Some (FallbackSweep, [1704154200000])"
  by (simp add: fire_eval fireLoop.simps windowCandidates.simps fallbackLoop.simps)

lemma fallback_closed_window:
  "generateFireDatesVia 1704081600000 (Fin 60) (Fin 120) (Fin 180) None None (Some 1)
   = Some (FallbackSweep, [])"
  by (simp add: fire_eval fireLoop.simps windowCandidates.simps fallbackLoop.simps)


section \<open>The claims\<close>




text \<open>
  C2.  The queue is the first \<open>maxCount\<close> entries of the stably sorted concatenation, in the
  order of the rules, of each rule's instants tagged with the rule's id and message: the
  sorted list is non-decreasing by instant, has the entries of the concatenation, and for
  every instant keeps the entries with that instant in the order of the concatenation.
\<close>

theorem queue_tagged_sorted_stable_capped:
  "\<exists>dates.
     (\<forall>s. datesFor now (countOf maxCountIn) (hoursOf horizonHoursIn) s = Some (dates s))
     \<and> (\<forall>s d. scheduleId (notify s d) = rule_id s \<and> date (notify s d) = d
               \<and> message (notify s d) = rule_message s)
     \<and> buildNotificationQueue now schedules maxCountIn horizonHoursIn
         = Some (take (countOf maxCountIn)
                  (sort_key date (concat (map (\<lambda>s. map (notify s) (dates s)) schedules))))
     \<and> sorted (map date (sort_key date (concat (map (\<lambda>s. map (notify s) (dates s)) schedules))))
     \<and> set (sort_key date (concat (map (\<lambda>s. map (notify s) (dates s)) schedules)))
         = set (concat (map (\<lambda>s. map (notify s) (dates s)) schedules))
     \<and> length (sort_key date (concat (map (\<lambda>s. map (notify s) (dates s)) schedules)))
         = length (concat (map (\<lambda>s. map (notify s) (dates s)) schedules))
     \<and> (\<forall>t. filter (\<lambda>n. date n = t)
                (sort_key date (concat (map (\<lambda>s. map (notify s) (dates s)) schedules)))
             = filter (\<lambda>n. date n = t)
                (concat (map (\<lambda>s. map (notify s) (dates s)) schedules)))"
proof -
  let ?dates = "ruleDates now (countOf maxCountIn) (hoursOf horizonHoursIn)"
  let ?combined = "concat (map (\<lambda>s. map (notify s) (?dates s)) schedules)"
  have 1: "\<forall>s. datesFor now (countOf maxCountIn) (hoursOf horizonHoursIn) s = Some (?dates s)"
    by (simp add: datesFor_ruleDates)
  have 2: "\<forall>s d. scheduleId (notify s d) = rule_id s \<and> date (notify s d) = d
               \<and> message (notify s d) = rule_message s"
    by (simp add: notify_def)
  have 3: "buildNotificationQueue now schedules maxCountIn horizonHoursIn
         = Some (take (countOf maxCountIn) (sort_key date ?combined))"
    unfolding countOf_def hoursOf_def by (rule buildNotificationQueue_eq)
  have 4: "sorted (map date (sort_key date ?combined))" by (rule sorted_sort_key)
  have 5: "set (sort_key date ?combined) = set ?combined" by (rule set_sort)
  have 6: "length (sort_key date ?combined) = length ?combined" by (rule length_sort)
  have 7: "\<forall>t. filter (\<lambda>n. date n = t) (sort_key date ?combined)
             = filter (\<lambda>n. date n = t) ?combined"
    by (simp add: sort_key_stable)
  show ?thesis
    by (rule exI[of _ ?dates]) (intro conjI 1 2 3 4 5 6 7)
qed

text \<open>
  C3.  A rule of a kind that takes the weekday mask (\<open>WithinDay\<close>, \<open>Daily\<close>, \<open>Weekly\<close>) and
  whose mask has seven entries, all false, yields the empty result whatever the horizon and
  the count are: \<^verbatim>\<open>generateFireDates\<close> takes the return for a mask without an active day,
  so neither the window search nor the fallback sweep runs, and the fixed-time generator
  returns the empty list.  The monthly generator takes no mask, so the mask does not apply to
  a \<open>Monthly\<close> rule.
\<close>

theorem empty_days_short_circuit:
  assumes "length flags = 7" "\<forall>d \<in> set flags. \<not> d"
  shows "generateFireDatesVia now intervalIn startIn endIn (Some flags) maxCountIn horizonHoursIn
           = Some (NoActiveDay, [])
       \<and> generateFireDates now intervalIn startIn endIn (Some flags) maxCountIn horizonHoursIn
           = Some []
       \<and> generateFixedTimeDates now timeMinutes (Some flags) maxCountIn horizonHoursIn = Some []
       \<and> (rule_type schedule \<noteq> Monthly \<and> daysOfWeek schedule = Some flags
            \<longrightarrow> datesFor now maxCount horizonHours schedule = Some [])"
proof -
  have n: "\<not> (\<exists>d \<in> set (normalizeDaysOfWeek (Some flags)). d)"
    using assms by (simp add: normalizeDaysOfWeek_mask)
  have 1: "\<And>i s e mc hh. generateFireDatesVia now i s e (Some flags) mc hh = Some (NoActiveDay, [])"
    using n by (auto simp: generateFireDatesVia_def Let_def)
  have 2: "\<And>i s e mc hh. generateFireDates now i s e (Some flags) mc hh = Some []"
    by (simp add: generateFireDates_def 1)
  have 3: "\<And>t mc hh. generateFixedTimeDates now t (Some flags) mc hh = Some []"
    using n by (auto simp: generateFixedTimeDates_def Let_def)
  have 4: "rule_type schedule \<noteq> Monthly \<and> daysOfWeek schedule = Some flags
            \<longrightarrow> datesFor now maxCount horizonHours schedule = Some []"
    by (cases "rule_type schedule") (simp_all add: datesFor_def 2 3)
  show ?thesis using 1 2 3 4 by blast
qed

theorem empty_days_short_circuit_witness:
  "generateFireDatesVia 1704096600000 (Fin 60) (Fin 540) (Fin 1020)
       (Some [False, False, False, False, False, False, False]) None (Some 48)
     = Some (NoActiveDay, [])
   \<and> generateFixedTimeDates 1704096600000 (Fin 540)
       (Some [False, False, False, False, False, False, False]) None (Some 48) = Some []"
  using empty_days_short_circuit[of "[False, False, False, False, False, False, False]"
      1704096600000 "Fin 60" "Fin 540" "Fin 1020" None "Some 48" "Fin 540"]
  by simp

text \<open>
  C4, as the code has it.  For a \<open>Monthly\<close> rule and \<open>now\<close> in a year the Date constructor
  reads as given (100 or later), the result is the first \<open>maxCount\<close> of the instants, taken
  month by month from the month of \<open>now\<close> while the month's first day is not after the
  horizon, that are after \<open>now\<close> and not after the horizon; the instant of a month is on its
  day \<open>min dayOfMonth (days in that month)\<close> at \<^verbatim>\<open>startMinutesFromMidnight\<close>; and the length
  \<^verbatim>\<open>getDaysInMonth\<close> computes is the length of the month.  With day 31, minute 540, from
  15 February 2023 and a horizon of 14 days the result is 28 February 2023, 09:00.
\<close>

theorem monthly_fire_instants:
  "(100 \<le> getFullYear now \<longrightarrow>
      generateMonthlyDates now timeMinutes dayOfMonthIn maxCountIn horizonHoursIn =
        Some (take (countOf maxCountIn)
          (filter (\<lambda>t. now < t \<and> t \<le> horizonOf now horizonHoursIn)
             (monthlyCandidates (horizonOf now horizonHoursIn) timeMinutes
                (normalizeDayOfMonth (Some dayOfMonthIn))
                (nat (horizonOf now horizonHoursIn + 1
                      - monthStartInstant (12 * getFullYear now + getMonth now)))
                (12 * getFullYear now + getMonth now)))))
   \<and> (1 \<le> dayOfMonthN \<and> 0 \<le> truncQ q \<and> truncQ q < 1440 \<longrightarrow>
        (\<exists>c. fireInstant (Fin q) dayOfMonthN i = Some c
           \<and> getFullYear c = i div 12 \<and> getMonth c = i mod 12
           \<and> getDate c = min dayOfMonthN (daysInMonth (i div 12) (i mod 12))
           \<and> minutesSinceMidnight c = truncQ q))
   \<and> (100 \<le> i div 12 \<longrightarrow> getDaysInMonth (i div 12) (i mod 12) = daysInMonth (i div 12) (i mod 12))
   \<and> generateMonthlyDates 1676462400000 (Fin 540) (Fin 31) None (Some 336) = Some [1677574800000]
   \<and> getFullYear 1677574800000 = 2023 \<and> getMonth 1677574800000 = 1
   \<and> getDate 1677574800000 = 28 \<and> minutesSinceMidnight 1677574800000 = 540"
proof -
  have 1: "100 \<le> getFullYear now \<longrightarrow>
      generateMonthlyDates now timeMinutes dayOfMonthIn maxCountIn horizonHoursIn =
        Some (take (countOf maxCountIn)
          (filter (\<lambda>t. now < t \<and> t \<le> horizonOf now horizonHoursIn)
             (monthlyCandidates (horizonOf now horizonHoursIn) timeMinutes
                (normalizeDayOfMonth (Some dayOfMonthIn))
                (nat (horizonOf now horizonHoursIn + 1
                      - monthStartInstant (12 * getFullYear now + getMonth now)))
                (12 * getFullYear now + getMonth now))))"
  proof
    assume y: "100 \<le> getFullYear now"
    then have "0 \<le> getFullYear now" by simp
    from generateMonthlyDates_exact[OF this, of timeMinutes dayOfMonthIn maxCountIn horizonHoursIn]
    show "generateMonthlyDates now timeMinutes dayOfMonthIn maxCountIn horizonHoursIn =
        Some (take (countOf maxCountIn)
          (filter (\<lambda>t. now < t \<and> t \<le> horizonOf now horizonHoursIn)
             (monthlyCandidates (horizonOf now horizonHoursIn) timeMinutes
                (normalizeDayOfMonth (Some dayOfMonthIn))
                (nat (horizonOf now horizonHoursIn + 1
                      - monthStartInstant (12 * getFullYear now + getMonth now)))
                (12 * getFullYear now + getMonth now))))"
      using y by (simp add: countOf_def horizonOf_def hoursOf_def)
  qed
  have 2: "1 \<le> dayOfMonthN \<and> 0 \<le> truncQ q \<and> truncQ q < 1440 \<longrightarrow>
        (\<exists>c. fireInstant (Fin q) dayOfMonthN i = Some c
           \<and> getFullYear c = i div 12 \<and> getMonth c = i mod 12
           \<and> getDate c = min dayOfMonthN (daysInMonth (i div 12) (i mod 12))
           \<and> minutesSinceMidnight c = truncQ q)"
    using fireInstant_decode[of dayOfMonthN q i] by blast
  have 3: "100 \<le> i div 12 \<longrightarrow>
      getDaysInMonth (i div 12) (i mod 12) = daysInMonth (i div 12) (i mod 12)"
    using getDaysInMonth_eq[of i] by simp
  have "fireInstant (Fin 540) 31 24277 = Some 1677574800000" by (rule fireInstant_eval)
  moreover have "\<exists>c. fireInstant (Fin 540) 31 24277 = Some c
           \<and> getFullYear c = 24277 div 12 \<and> getMonth c = 24277 mod 12
           \<and> getDate c = min 31 (daysInMonth (24277 div 12) (24277 mod 12))
           \<and> minutesSinceMidnight c = truncQ 540"
    by (rule fireInstant_decode) (simp_all add: truncQ_def)
  ultimately have 4: "getFullYear 1677574800000 = 2023 \<and> getMonth 1677574800000 = 1
   \<and> getDate 1677574800000 = 28 \<and> minutesSinceMidnight 1677574800000 = 540"
    by (simp add: daysInMonth_def isLeapYear_def truncQ_def)
  show ?thesis using 1 2 3 4 monthly_feb_default_cap by blast
qed

theorem monthly_fire_instants_witness:
  "generateMonthlyDates 1676462400000 (Fin 540) (Fin 31) None (Some 1440)
     = Some [1677574800000, 1680253200000]
   \<and> getDaysInMonth 2023 1 = 28"
proof -
  have y: "100 \<le> getFullYear 1676462400000" by (simp add: feb15_2023)
  note t = monthly_fire_instants[of 1676462400000 "Fin 540" "Fin 31" None "Some 1440" 31 540 24277]
  have a: "generateMonthlyDates 1676462400000 (Fin 540) (Fin 31) None (Some 1440)
     = Some [1677574800000, 1680253200000]"
    using t y
    by (simp add: feb15_2023 countOf_def horizonOf_def hoursOf_def normalizeDayOfMonth_31
        monthStartInstant_eval fireInstant_eval monthlyCandidates_unfold)
  have b: "getDaysInMonth 2023 1 = 28"
    using t by (simp add: daysInMonth_def isLeapYear_def)
  show ?thesis using a b by simp
qed

text \<open>
  C4 as the claim states it fails at the cap: with \<open>maxCount = 1\<close> and a horizon of 60 days
  from 15 February 2023, the instant of March (31 March, 09:00) is after \<open>now\<close> and not after
  the horizon, and is not emitted.  It also fails where the Date constructor reads the year
  as another: from 15 February of the year 50 with a horizon of 14 days nothing is emitted,
  although 28 February of the year 50, 09:00, is within the horizon (the loop starts in
  February 1950).
\<close>

theorem monthly_emission_counterexample:
  "generateMonthlyDates 1676462400000 (Fin 540) (Fin 31) (Some 1) (Some 1440)
     = Some [1677574800000]
   \<and> fireInstant (Fin 540) 31 (12 * 2023 + 2) = Some 1680253200000
   \<and> 1676462400000 < (1680253200000 :: int)
   \<and> 1680253200000 \<le> horizonOf 1676462400000 (Some 1440)
   \<and> generateMonthlyDates (- 60585364800000) (Fin 540) (Fin 31) None (Some 336) = Some []
   \<and> getFullYear (- 60585364800000) = 50 \<and> getMonth (- 60585364800000) = 1
   \<and> fireInstant (Fin 540) 31 (12 * 50 + 1) = Some (- 60584252400000)
   \<and> - 60585364800000 < (- 60584252400000 :: int)
   \<and> - 60584252400000 \<le> horizonOf (- 60585364800000) (Some 336)"
proof -
  have "fireInstant (Fin 540) 31 601 = Some (- 60584252400000)"
    by (simp add: fireInstant_def monthStartInstant_def firstDay_def DayFromYear_def
        isLeapYear_def monthStart_values daysInMonth_def truncQ_def msPerDay_def msPerMinute_def)
  then show ?thesis
    using monthly_feb_cap_one monthly_year_50 fireInstant_eval(2) feb15_50
    by (simp add: horizonOf_def hoursOf_def)
qed

text \<open>
  C5, as the code has it.  \<^verbatim>\<open>generateFireDates\<close>, the generator of a \<open>WithinDay\<close> rule,
  computes with the interval clamped into 5 to 180 (a non-finite interval, also positive
  infinity, becomes 5) and with the start and end minutes floored and reduced modulo 1440
  into 0 to 1439 (non-finite ones become 0): calling it on the normalised values gives the
  same result.
\<close>

theorem within_day_numbers_normalised:
  "clamp (Fin q) MIN_INTERVAL MAX_INTERVAL = min 180 (max 5 q)
   \<and> clamp NaN MIN_INTERVAL MAX_INTERVAL = 5
   \<and> clamp PosInfinity MIN_INTERVAL MAX_INTERVAL = 5
   \<and> clamp NegInfinity MIN_INTERVAL MAX_INTERVAL = 5
   \<and> 5 \<le> clamp v MIN_INTERVAL MAX_INTERVAL \<and> clamp v MIN_INTERVAL MAX_INTERVAL \<le> 180
   \<and> normalizeMinutes (Fin q) = \<lfloor>q\<rfloor> mod 1440
   \<and> normalizeMinutes NaN = 0 \<and> normalizeMinutes PosInfinity = 0
   \<and> normalizeMinutes NegInfinity = 0
   \<and> 0 \<le> normalizeMinutes v \<and> normalizeMinutes v < 1440
   \<and> generateFireDatesVia now intervalIn startIn endIn daysIn maxCountIn horizonHoursIn
       = generateFireDatesVia now (Fin (clamp intervalIn MIN_INTERVAL MAX_INTERVAL))
           (Fin (of_int (normalizeMinutes startIn))) (Fin (of_int (normalizeMinutes endIn)))
           daysIn maxCountIn horizonHoursIn"
proof -
  have 1: "clamp (Fin q) MIN_INTERVAL MAX_INTERVAL = min 180 (max 5 q)"
    "clamp NaN MIN_INTERVAL MAX_INTERVAL = 5" "clamp PosInfinity MIN_INTERVAL MAX_INTERVAL = 5"
    "clamp NegInfinity MIN_INTERVAL MAX_INTERVAL = 5"
    by (simp_all add: clamp_def MIN_INTERVAL_def MAX_INTERVAL_def)
  have 2: "normalizeMinutes NaN = 0" "normalizeMinutes PosInfinity = 0"
    "normalizeMinutes NegInfinity = 0"
    by (simp_all add: normalizeMinutes_def)
  have 3: "generateFireDatesVia now intervalIn startIn endIn daysIn maxCountIn horizonHoursIn
       = generateFireDatesVia now (Fin (clamp intervalIn MIN_INTERVAL MAX_INTERVAL))
           (Fin (of_int (normalizeMinutes startIn))) (Fin (of_int (normalizeMinutes endIn)))
           daysIn maxCountIn horizonHoursIn"
    unfolding generateFireDatesVia_def clamp_idem normalizeMinutes_idem by (rule refl)
  show ?thesis
    using 1 2 3 clamp_interval[of v] normalizeMinutes_range[of v] normalizeMinutes_Fin[of q]
    by blast
qed

text \<open>
  C5 as the claim states it fails: the start minute 1500 is not clamped (to 1439) but
  reduced modulo 1440 (to 60), and an infinite interval becomes 5, not 180; and the
  fixed-time generator of a \<open>Daily\<close> rule does not normalise the start minute at all: from
  Monday 1 January 2024, 00:00, the start minute 1500 yields nothing, where 60 yields 01:00
  and 1439 yields 23:59 of that day.
\<close>

theorem numbers_not_clamped_counterexample:
  "normalizeMinutes (Fin 1500) = 60
   \<and> clamp PosInfinity MIN_INTERVAL MAX_INTERVAL = 5
   \<and> generateFixedTimeDates 1704067200000 (Fin 1500) None None None = Some []
   \<and> generateFixedTimeDates 1704067200000 (Fin 60) None None None = Some [1704070800000]
   \<and> generateFixedTimeDates 1704067200000 (Fin 1439) None None None = Some [1704153540000]"
  using daily_1500 daily_60 daily_1439
  by (simp add: normalizeMinutes_Fin clamp_def MIN_INTERVAL_def)

text \<open>
  C6, as the code has it.  A missing or non-finite \<^verbatim>\<open>dayOfMonth\<close> becomes day 1; a finite
  one is rounded and then clamped into 1 to 31, so that a value above 31 becomes 31.  The
  monthly generator, and the queue's branch for a \<open>Monthly\<close> rule, compute with that value.
\<close>

theorem day_of_month_normalised:
  "normalizeDayOfMonth None = 1 \<and> normalizeDayOfMonth (Some NaN) = 1
   \<and> normalizeDayOfMonth (Some PosInfinity) = 1 \<and> normalizeDayOfMonth (Some NegInfinity) = 1
   \<and> normalizeDayOfMonth (Some (Fin q)) = max 1 (min 31 (Math_round q))
   \<and> 1 \<le> normalizeDayOfMonth v \<and> normalizeDayOfMonth v \<le> 31
   \<and> generateMonthlyDates now timeMinutes d maxCountIn horizonHoursIn
       = generateMonthlyDates now timeMinutes (Fin (of_int (normalizeDayOfMonth (Some d))))
           maxCountIn horizonHoursIn
   \<and> datesFor now maxCount horizonHours (schedule\<lparr>rule_type := Monthly\<rparr>)
       = datesFor now maxCount horizonHours
           (schedule\<lparr>rule_type := Monthly,
              dayOfMonth := Some (Fin (of_int (normalizeDayOfMonth (dayOfMonth schedule))))\<rparr>)"
proof -
  have 1: "normalizeDayOfMonth None = 1" "normalizeDayOfMonth (Some NaN) = 1"
    "normalizeDayOfMonth (Some PosInfinity) = 1" "normalizeDayOfMonth (Some NegInfinity) = 1"
    "normalizeDayOfMonth (Some (Fin q)) = max 1 (min 31 (Math_round q))"
    by (simp_all add: normalizeDayOfMonth_def DEFAULT_DAY_OF_MONTH_def Let_def)
  have 2: "generateMonthlyDates now timeMinutes d maxCountIn horizonHoursIn
       = generateMonthlyDates now timeMinutes (Fin (of_int (normalizeDayOfMonth (Some d))))
           maxCountIn horizonHoursIn"
    unfolding generateMonthlyDates_def normalizeDayOfMonth_idem by (rule refl)
  have 3: "datesFor now maxCount horizonHours (schedule\<lparr>rule_type := Monthly\<rparr>)
       = datesFor now maxCount horizonHours
           (schedule\<lparr>rule_type := Monthly,
              dayOfMonth := Some (Fin (of_int (normalizeDayOfMonth (dayOfMonth schedule))))\<rparr>)"
    by (simp add: datesFor_def normalizeDayOfMonth_idem)
  show ?thesis using 1 2 3 normalizeDayOfMonth_range[of v] by blast
qed

text \<open>
  C6 as the claim states it fails: the out-of-range day 40 is not replaced with day 1 but
  with day 31, and the generator behaves so: from 15 February 2023 with a horizon of 14 days
  day 40 fires on 28 February, 09:00, where day 1 fires on 1 March, 09:00.
\<close>

theorem day_of_month_not_one_counterexample:
  "normalizeDayOfMonth (Some (Fin 40)) = 31
   \<and> generateMonthlyDates 1676462400000 (Fin 540) (Fin 40) None (Some 336)
       = Some [1677574800000]
   \<and> generateMonthlyDates 1676462400000 (Fin 540) (Fin 1) None (Some 336)
       = Some [1677661200000]"
  using normalizeDayOfMonth_40 monthly_day_40 monthly_day_1 by simp

text \<open>
  C7.  With the interval clamped and the minutes normalised, \<^verbatim>\<open>generateFireDates\<close> runs the
  window search; when that yields no instant the result is the fallback's, which is the
  first \<open>maxCount\<close> instants of the sweep (from \<open>now\<close> plus the interval, cut down to the
  whole minute, in steps of the interval while not after the horizon) that are in the window
  or of an all-day rule, and on an active day; when the search yields an instant, the result
  is the search's and the fallback is not called.  A mask with no active day gives the empty
  result without the search, as the sweep would.  From Monday 22:10 with the window 23:30
  to 00:20 and only Tuesday active, the search is empty and the sweep gives Tuesday 00:10;
  with the window 02:00 to 03:00 from 04:00 and a horizon of one hour the sweep is empty too.
\<close>

theorem fallback_when_window_search_empty:
  "(let interval = clamp intervalIn MIN_INTERVAL MAX_INTERVAL;
        s = normalizeMinutes startIn;
        e = normalizeMinutes endIn;
        days = normalizeDaysOfWeek daysIn;
        maxCount = countOf maxCountIn;
        horizon = horizonOf now horizonHoursIn;
        start = setSeconds0 (addMinutes now interval);
        swept = take maxCount
                  (filter (\<lambda>t. (s = e \<or> isWithinWindow t s e (e < s)) \<and> isDayActive t days)
                     (sweep horizon interval (nat (horizon + 1 - start)) start))
    in start = addMinutes now interval - addMinutes now interval mod msPerMinute
       \<and> (if \<exists>d \<in> set days. d
           then \<exists>primary.
                  fireLoop now horizon interval s e (s = e) (e < s) days maxCount [] now
                    = Some primary
                  \<and> generateFireDatesVia now intervalIn startIn endIn daysIn maxCountIn
                       horizonHoursIn
                     = Some (if primary = [] then (FallbackSweep, swept)
                             else (WindowSearch, primary))
           else generateFireDatesVia now intervalIn startIn endIn daysIn maxCountIn
                  horizonHoursIn = Some (NoActiveDay, [])
                \<and> swept = []))
   \<and> generateFireDatesVia 1704147000000 (Fin 60) (Fin 1410) (Fin 20)
         (Some [False, True, False, False, False, False, False]) None (Some 24)
       = Some (FallbackSweep, [1704154200000])
   \<and> generateFireDatesVia 1704081600000 (Fin 60) (Fin 120) (Fin 180) None None (Some 1)
       = Some (FallbackSweep, [])"
proof -
  define interval where "interval = clamp intervalIn MIN_INTERVAL MAX_INTERVAL"
  define s where "s = normalizeMinutes startIn"
  define e where "e = normalizeMinutes endIn"
  define days where "days = normalizeDaysOfWeek daysIn"
  define maxCount where "maxCount = countOf maxCountIn"
  define horizon where "horizon = horizonOf now horizonHoursIn"
  define start where "start = setSeconds0 (addMinutes now interval)"
  define swept where "swept = take maxCount
                  (filter (\<lambda>t. (s = e \<or> isWithinWindow t s e (e < s)) \<and> isDayActive t days)
                     (sweep horizon interval (nat (horizon + 1 - start)) start))"
  define anyActive where "anyActive = (\<exists>d \<in> set days. d)"
  have i: "1 \<le> interval" using clamp_interval(1)[of intervalIn] by (simp add: interval_def)
  have se: "0 \<le> s" "s < 1440" "0 \<le> e" "e < 1440"
    using normalizeMinutes_range[of startIn] normalizeMinutes_range[of endIn]
    by (simp_all add: s_def e_def)
  have a: "start = addMinutes now interval - addMinutes now interval mod msPerMinute"
    by (simp add: start_def setSeconds0_eq)
  have fb: "generateFallbackDates now interval s e days maxCount (hoursOf horizonHoursIn)
            = Some swept"
    unfolding swept_def start_def horizon_def horizonOf_def
    by (rule generateFallbackDates_exact[OF i])
  have via: "generateFireDatesVia now intervalIn startIn endIn daysIn maxCountIn horizonHoursIn =
      (if \<not> anyActive then Some (NoActiveDay, [])
       else case fireLoop now horizon interval s e (s = e) (e < s) days maxCount [] now of
              None \<Rightarrow> None
            | Some results \<Rightarrow>
                if length results = 0
                then map_option (Pair FallbackSweep)
                       (generateFallbackDates now interval s e days maxCount
                          (hoursOf horizonHoursIn))
                else Some (WindowSearch, results))"
    unfolding generateFireDatesVia_def Let_def anyActive_def interval_def s_def e_def days_def
      maxCount_def horizon_def horizonOf_def hoursOf_def countOf_def
    by (rule refl)
  have b: "if anyActive
           then \<exists>primary.
                  fireLoop now horizon interval s e (s = e) (e < s) days maxCount [] now
                    = Some primary
                  \<and> generateFireDatesVia now intervalIn startIn endIn daysIn maxCountIn
                       horizonHoursIn
                     = Some (if primary = [] then (FallbackSweep, swept)
                             else (WindowSearch, primary))
           else generateFireDatesVia now intervalIn startIn endIn daysIn maxCountIn
                  horizonHoursIn = Some (NoActiveDay, [])
                \<and> swept = []"
  proof (cases anyActive)
    case True
    have "\<exists>r. fireLoop now horizon interval s e (s = e) (e < s) days maxCount [] now = Some r
              \<and> inBounds now horizon maxCount r"
      by (rule fireLoop_inBounds[OF i se refl refl inBounds_Nil allBelow_Nil]) simp
    then obtain primary where p:
      "fireLoop now horizon interval s e (s = e) (e < s) days maxCount [] now = Some primary"
      by blast
    have "generateFireDatesVia now intervalIn startIn endIn daysIn maxCountIn horizonHoursIn
          = Some (if primary = [] then (FallbackSweep, swept) else (WindowSearch, primary))"
      unfolding via using True p fb by simp
    then show ?thesis using True p by simp
  next
    case False
    then have nd: "\<not> (\<exists>d \<in> set days. d)" by (simp add: anyActive_def)
    have "filter (\<lambda>t. (s = e \<or> isWithinWindow t s e (e < s)) \<and> isDayActive t days)
            (sweep horizon interval (nat (horizon + 1 - start)) start) = []"
      by (simp add: no_active_day[OF nd])
    then have "swept = []" by (simp add: swept_def)
    then show ?thesis unfolding via using False by simp
  qed
  show ?thesis
    unfolding Let_def
    using a b fallback_tuesday fallback_closed_window
    unfolding anyActive_def interval_def s_def e_def days_def maxCount_def horizon_def
      start_def swept_def
    by (intro conjI)
qed

text \<open>
  C8.  From Monday 08:10 the all-day rule fires at 09:00, 10:00, 11:00: on the grid anchored
  at midnight.  From Monday 08:10:30 it fires at 09:00:30, 10:00:30, 11:00:30:
  \<^verbatim>\<open>alignToInterval\<close> counts whole minutes since midnight and adds the missing minutes to
  the cursor, which keeps the seconds and milliseconds of \<open>now\<close>, so the instants are off
  the grid by the part of \<open>now\<close> below a minute.
\<close>

theorem all_day_grid_keeps_seconds:
  "generateFireDates 1704096600000 (Fin 60) (Fin 0) (Fin 0) None (Some 3) (Some 24)
     = Some [1704099600000, 1704103200000, 1704106800000]
   \<and> map (\<lambda>t. t mod (60 * msPerMinute)) [1704099600000, 1704103200000, 1704106800000] = [0, 0, 0]
   \<and> generateFireDates 1704096630000 (Fin 60) (Fin 0) (Fin 0) None (Some 3) (Some 24)
     = Some [1704099630000, 1704103230000, 1704106830000]
   \<and> map (\<lambda>t. t mod (60 * msPerMinute)) [1704099630000, 1704103230000, 1704106830000]
       = [30000, 30000, 30000]"
  using all_day_on_the_minute all_day_with_seconds by (simp add: msPerMinute_def)

text \<open>
  C9.  Window 21:00 to 06:00, every 60 minutes, from Monday 1 January 2024, 20:00, with a
  horizon of 24 hours: with only Monday active the window search emits Monday 21:00, 22:00
  and 23:00, and that is the result; with every day active the window search emits these and
  Tuesday 00:00 to 05:00.  Neither result comes from the fallback sweep.
\<close>

theorem midnight_spanning_window:
  "generateFireDatesVia 1704139200000 (Fin 60) (Fin 1260) (Fin 360)
     (Some [True, False, False, False, False, False, False]) None (Some 24)
   = Some (WindowSearch, [1704142800000, 1704146400000, 1704150000000])
   \<and> generateFireDatesVia 1704139200000 (Fin 60) (Fin 1260) (Fin 360)
     (Some [True, True, True, True, True, True, True]) None (Some 24)
   = Some (WindowSearch,
       [1704142800000, 1704146400000, 1704150000000]
       @ [1704153600000, 1704157200000, 1704160800000, 1704164400000, 1704168000000,
          1704171600000])
   \<and> generateFireDates 1704139200000 (Fin 60) (Fin 1260) (Fin 360)
     (Some [True, False, False, False, False, False, False]) None (Some 24)
   = Some [1704142800000, 1704146400000, 1704150000000]
   \<and> generateFireDates 1704139200000 (Fin 60) (Fin 1260) (Fin 360)
     (Some [True, True, True, True, True, True, True]) None (Some 24)
   = Some ([1704142800000, 1704146400000, 1704150000000]
           @ [1704153600000, 1704157200000, 1704160800000, 1704164400000, 1704168000000,
              1704171600000])
   \<and> getDay 1704139200000 = 1 \<and> minutesSinceMidnight 1704139200000 = 1200
   \<and> map (\<lambda>t. (getDay t, minutesSinceMidnight t))
         [1704142800000, 1704146400000, 1704150000000, 1704153600000, 1704157200000,
          1704160800000, 1704164400000, 1704168000000, 1704171600000]
       = [(1, 1260), (1, 1320), (1, 1380), (2, 0), (2, 60), (2, 120), (2, 180), (2, 240),
          (2, 300)]"
  using spanning_monday_only spanning_all_days
  by (simp add: generateFireDates_def getDay_def WeekDay_def Day_def minutesSinceMidnight_eq
      TimeWithinDay_def msPerDay_def msPerMinute_def)

text \<open>
  C10.  A \<open>Monthly\<close> rule's notifications do not depend on its weekday mask: replacing the
  mask of a \<open>Monthly\<close> rule by any other, anywhere in the list of rules, leaves the queue as
  it is.
\<close>

theorem monthly_ignores_weekday_mask:
  assumes "rule_type schedule = Monthly"
  shows "buildNotificationQueue now (before @ schedule\<lparr>daysOfWeek := flags\<rparr> # after)
           maxCountIn horizonHoursIn
         = buildNotificationQueue now (before @ schedule # after) maxCountIn horizonHoursIn
       \<and> datesFor now maxCount horizonHours (schedule\<lparr>daysOfWeek := flags\<rparr>)
         = datesFor now maxCount horizonHours schedule"
proof -
  have "notify (schedule\<lparr>daysOfWeek := flags\<rparr>) = notify schedule"
    by (rule ext) (simp add: notify_def)
  then have 1: "buildNotificationQueue now (before @ schedule\<lparr>daysOfWeek := flags\<rparr> # after)
           maxCountIn horizonHoursIn
         = buildNotificationQueue now (before @ schedule # after) maxCountIn horizonHoursIn"
    by (simp add: buildNotificationQueue_eq monthly_rule_dates[OF assms])
  have 2: "datesFor now maxCount horizonHours (schedule\<lparr>daysOfWeek := flags\<rparr>)
         = datesFor now maxCount horizonHours schedule"
    using assms by (simp add: datesFor_def)
  show ?thesis using 1 2 by blast
qed

theorem monthly_ignores_weekday_mask_witness:
  "buildNotificationQueue 1676462400000
     [\<lparr>rule_id = ''rent'', rule_type = Monthly, intervalMinutes = Fin 60,
       startMinutesFromMidnight = Fin 540, endMinutesFromMidnight = Fin 540,
       rule_message = ''pay'', daysOfWeek = None, dayOfMonth = Some (Fin 31)\<rparr>
        \<lparr>daysOfWeek := Some [False, False, False, False, False, False, False]\<rparr>]
     None (Some 336)
   = buildNotificationQueue 1676462400000
     [\<lparr>rule_id = ''rent'', rule_type = Monthly, intervalMinutes = Fin 60,
       startMinutesFromMidnight = Fin 540, endMinutesFromMidnight = Fin 540,
       rule_message = ''pay'', daysOfWeek = None, dayOfMonth = Some (Fin 31)\<rparr>]
     None (Some 336)"
  using monthly_ignores_weekday_mask[of
      "\<lparr>rule_id = ''rent'', rule_type = Monthly, intervalMinutes = Fin 60,
       startMinutesFromMidnight = Fin 540, endMinutesFromMidnight = Fin 540,
       rule_message = ''pay'', daysOfWeek = None, dayOfMonth = Some (Fin 31)\<rparr>"
      1676462400000 "[]" "Some [False, False, False, False, False, False, False]" "[]"
      None "Some 336"]
  by simp

end
